theory Spec2Isabelle
  imports Complex_Main "HOL-Library.Sublist" "HOL-Library.AList"
begin

section \<open>Host values: numbers and strings\<close>

text \<open>
  A JavaScript number is held as the exact value of the double: \<open>Val r\<close> for a finite
  number, and the three non-finite values. An operation that makes a number rounds its
  exact result to the nearest double (\<open>to_double\<close> below). The two zeros are not told
  apart. A string is a list of code units below 256.
\<close>

datatype number = NaN | Val rat | PosInf | NegInf

fun truthy :: "number \<Rightarrow> bool" where
  "truthy NaN = False"
| "truthy (Val r) = (r \<noteq> 0)"
| "truthy PosInf = True"
| "truthy NegInf = True"

text \<open>\<^verbatim>\<open>a || b\<close> on numbers.\<close>

definition or_else :: "number \<Rightarrow> number \<Rightarrow> number" where
  "or_else a b = (if truthy a then a else b)"

text \<open>\<^verbatim>\<open>a ?? b\<close>: the left operand unless it is undefined or null.\<close>

definition nullish :: "'a option \<Rightarrow> 'a \<Rightarrow> 'a" where
  "nullish a b = (case a of Some v \<Rightarrow> v | None \<Rightarrow> b)"

definition isNaN :: "number \<Rightarrow> bool" where
  "isNaN n = (n = NaN)"

text \<open>White space of \<^verbatim>\<open>\s\<close> and of \<^verbatim>\<open>parseFloat\<close> among the code units below 256:
  tab, line feed, vertical tab, form feed, carriage return, space, no-break space.\<close>

definition is_space :: "char \<Rightarrow> bool" where
  "is_space c = (of_char c \<in> {9::nat, 10, 11, 12, 13, 32, 160})"

definition is_digit :: "char \<Rightarrow> bool" where
  "is_digit c = (48 \<le> (of_char c :: nat) \<and> (of_char c :: nat) \<le> 57)"

definition digit_val :: "char \<Rightarrow> nat" where
  "digit_val c = of_char c - 48"

definition digit_char :: "nat \<Rightarrow> char" where
  "digit_char d = char_of (48 + d)"

text \<open>\<^verbatim>\<open>String(n)\<close> for a non-negative integer: its decimal digits.\<close>

fun string_of_nat :: "nat \<Rightarrow> string" where
  "string_of_nat n =
     (if n < 10 then [digit_char n]
      else string_of_nat (n div 10) @ [digit_char (n mod 10)])"

declare string_of_nat.simps [simp del]

text \<open>\<^verbatim>\<open>s.padStart(n, c)\<close> with a one-character pad string.\<close>

definition padStart :: "nat \<Rightarrow> char \<Rightarrow> string \<Rightarrow> string" where
  "padStart n c s = replicate (n - length s) c @ s"

text \<open>\<^verbatim>\<open>s.endsWith(suf)\<close>.\<close>

definition endsWith :: "string \<Rightarrow> string \<Rightarrow> bool" where
  "endsWith s suf = (length suf \<le> length s \<and> drop (length s - length suf) s = suf)"

text \<open>\<^verbatim>\<open>parts.join(sep)\<close>.\<close>

fun join :: "string \<Rightarrow> string list \<Rightarrow> string" where
  "join sep [] = []"
| "join sep [a] = a"
| "join sep (a # b # bs) = a @ sep @ join sep (b # bs)"

subsection \<open>Doubles\<close>

text \<open>The number of binary digits of a natural number.\<close>

fun bit_length :: "nat \<Rightarrow> nat" where
  "bit_length n = (if n = 0 then 0 else Suc (bit_length (n div 2)))"

declare bit_length.simps [simp del]

text \<open>The exponent \<open>e\<close> of the binade of a positive value: \<open>2^e \<le> x < 2^(e+1)\<close>.\<close>

definition binade :: "rat \<Rightarrow> int" where
  "binade x =
     (let (a, b) = quotient_of x;
          d = int (bit_length (nat a)) - int (bit_length (nat b))
      in if 2 powi d \<le> x then d else d - 1)"

text \<open>The nearest integer, the even one on a tie.\<close>

definition round_even :: "rat \<Rightarrow> int" where
  "round_even y =
     (let f = \<lfloor>y\<rfloor>; r = y - of_int f
      in if r < 1 / 2 then f
         else if 1 / 2 < r then f + 1
         else if even f then f else f + 1)"

text \<open>
  The exponent of the unit in the last place of the doubles around \<open>x\<close>: 52 below the
  exponent of the binade, and \<open>-1074\<close> for the subnormal ones.
\<close>

definition ulp_exp :: "rat \<Rightarrow> int" where
  "ulp_exp x = max (binade \<bar>x\<bar>) (- 1022) - 52"

text \<open>
  The Number value for an exact value (IEEE 754 binary64, round to nearest, ties to
  even): the nearest multiple of the unit in the last place, an infinity from \<open>2^1024\<close>
  on.
\<close>

definition to_double :: "rat \<Rightarrow> number" where
  "to_double x =
     (if x = 0 then Val 0
      else
        (let q = ulp_exp x;
             r = of_int (round_even (\<bar>x\<bar> / 2 powi q)) * 2 powi q
         in if 2 ^ 1024 \<le> r then (if x < 0 then NegInf else PosInf)
            else Val (if x < 0 then - r else r)))"

subsection \<open>Number to string\<close>

definition strip_trailing_zeros :: "nat list \<Rightarrow> nat list" where
  "strip_trailing_zeros ds = rev (dropWhile (\<lambda>d. d = 0) (rev ds))"

fun nat_digits :: "nat \<Rightarrow> nat list" where
  "nat_digits n = (if n < 10 then [n] else nat_digits (n div 10) @ [n mod 10])"

declare nat_digits.simps [simp del]

text \<open>The decimal exponent \<open>n\<close> of a positive value: \<open>10^(n-1) \<le> x < 10^n\<close>.\<close>

definition decimal_exp :: "rat \<Rightarrow> int" where
  "decimal_exp x =
     (let (a, b) = quotient_of x;
          d = int (length (nat_digits (nat a))) - int (length (nat_digits (nat b)))
      in if 10 powi d \<le> x then d + 1 else d)"

text \<open>
  Number::toString of ECMAScript for a positive finite value, radix 10, takes the
  integers \<open>n\<close>, \<open>k\<close>, \<open>s\<close> with \<open>s\<close> of \<open>k\<close> digits, \<open>k\<close> as small as possible, such
  that \<open>s \<times> 10^(n-k)\<close> reads back as the same double; among several such \<open>s\<close> the one
  nearest to the value, the even one on a tie. \<open>digits_at x j\<close> is that \<open>s\<close> at the scale
  \<open>10^j\<close>, when one of the two multiples of \<open>10^j\<close> around \<open>x\<close> reads back as \<open>x\<close>;
  \<open>shortest\<close> tries the scales from one digit down to seventeen, which always suffice
  for a double.
\<close>

definition reads_as :: "rat \<Rightarrow> int \<Rightarrow> int \<Rightarrow> bool" where
  "reads_as x s j = (to_double (of_int s * 10 powi j) = Val x)"

definition digits_at :: "rat \<Rightarrow> int \<Rightarrow> int option" where
  "digits_at x j =
     (let lo = \<lfloor>x / 10 powi j\<rfloor>; hi = lo + 1;
          dl = x - of_int lo * 10 powi j; dh = of_int hi * 10 powi j - x
      in if reads_as x lo j \<and> reads_as x hi j
         then Some (if dl < dh then lo else if dh < dl then hi
                    else if even lo then lo else hi)
         else if reads_as x lo j then Some lo
         else if reads_as x hi j then Some hi
         else None)"

fun shortest :: "nat \<Rightarrow> rat \<Rightarrow> int \<Rightarrow> int \<times> int" where
  "shortest 0 x j = (\<lfloor>x / 10 powi j\<rfloor>, j)"
| "shortest (Suc f) x j =
     (case digits_at x j of Some s \<Rightarrow> (s, j) | None \<Rightarrow> shortest f x (j - 1))"

text \<open>The significant digits, without trailing zeros, and the decimal exponent \<open>n\<close>.\<close>

definition sig_digits :: "rat \<Rightarrow> nat list \<times> int" where
  "sig_digits x =
     (let (s, j) = shortest 17 x (decimal_exp x - 1); ds = nat_digits (nat s)
      in (strip_trailing_zeros ds, int (length ds) + j))"

text \<open>
  The text for the digits \<open>s\<close> (\<open>k\<close> of them) and the exponent \<open>n\<close>: plain digits when
  \<open>k \<le> n \<le> 21\<close>, a decimal point inside when \<open>0 < n \<le> 21\<close>, leading \<open>0.\<close> and zeros
  when \<open>-6 < n \<le> 0\<close>, exponent notation otherwise.
\<close>

definition toString_pos :: "rat \<Rightarrow> string" where
  "toString_pos v =
     (let (s, n) = sig_digits v; k = int (length s); ds = map digit_char s
      in if k \<le> n \<and> n \<le> 21 then ds @ replicate (nat (n - k)) (CHR ''0'')
         else if 0 < n \<and> n \<le> 21 then take (nat n) ds @ ''.'' @ drop (nat n) ds
         else if - 6 < n \<and> n \<le> 0 then ''0.'' @ replicate (nat (- n)) (CHR ''0'') @ ds
         else (if k = 1 then ds else take 1 ds @ ''.'' @ drop 1 ds)
              @ ''e'' @ (if n - 1 < 0 then ''-'' else ''+'') @ string_of_nat (nat \<bar>n - 1\<bar>))"

fun numberToString :: "number \<Rightarrow> string" where
  "numberToString NaN = ''NaN''"
| "numberToString PosInf = ''Infinity''"
| "numberToString NegInf = ''-Infinity''"
| "numberToString (Val v) =
     (if v = 0 then ''0''
      else if v < 0 then ''-'' @ toString_pos (- v)
      else toString_pos v)"

text \<open>
  \<^verbatim>\<open>x.toFixed(2)\<close>: a value that is not finite prints as Number::toString does; the sign
  is taken off; a magnitude from \<open>10^21\<close> on prints as Number::toString does; otherwise
  \<open>n\<close> is the integer nearest to \<open>100 x\<close> (the larger one on a tie), its digits are
  padded with zeros to three, and the point goes before the last two.
\<close>

definition toFixed2_digits :: "rat \<Rightarrow> string" where
  "toFixed2_digits v =
     (let n = nat \<lfloor>v * 100 + 1 / 2\<rfloor>;
          m = string_of_nat n;
          m' = (if length m \<le> 2 then replicate (3 - length m) (CHR ''0'') @ m else m);
          k = length m'
      in take (k - 2) m' @ ''.'' @ drop (k - 2) m')"

definition toFixed2_abs :: "rat \<Rightarrow> string" where
  "toFixed2_abs v = (if 10 ^ 21 \<le> v then toString_pos v else toFixed2_digits v)"

fun toFixed2 :: "number \<Rightarrow> string" where
  "toFixed2 (Val v) = (if v < 0 then ''-'' @ toFixed2_abs (- v) else toFixed2_abs v)"
| "toFixed2 n = numberToString n"

text \<open>\<^verbatim>\<open>a + b\<close> on numbers.\<close>

fun plus_number :: "number \<Rightarrow> number \<Rightarrow> number" where
  "plus_number (Val a) (Val b) = to_double (a + b)"
| "plus_number NaN b = NaN"
| "plus_number a NaN = NaN"
| "plus_number PosInf NegInf = NaN"
| "plus_number NegInf PosInf = NaN"
| "plus_number PosInf b = PosInf"
| "plus_number NegInf b = NegInf"
| "plus_number a PosInf = PosInf"
| "plus_number a NegInf = NegInf"

subsection \<open>String to number\<close>

definition nat_of_digits :: "string \<Rightarrow> nat" where
  "nat_of_digits ds = foldl (\<lambda>a c. 10 * a + digit_val c) 0 ds"

text \<open>The exponent part \<^verbatim>\<open>e\<close>, sign, digits of a decimal literal; 0 when there is none.\<close>

definition exponent_part :: "string \<Rightarrow> int" where
  "exponent_part r =
     (case r of
        [] \<Rightarrow> 0
      | c # r' \<Rightarrow>
          if c = CHR ''e'' \<or> c = CHR ''E'' then
            (let (neg, r'') =
                   (case r' of
                      [] \<Rightarrow> (False, r')
                    | s # t \<Rightarrow> if s = CHR ''-'' then (True, t)
                               else if s = CHR ''+'' then (False, t) else (False, r'));
                 ds = takeWhile is_digit r''
             in if ds = [] then 0
                else if neg then - int (nat_of_digits ds) else int (nat_of_digits ds))
          else 0)"

text \<open>
  \<^verbatim>\<open>parseFloat(s)\<close>: leading white space is dropped, then the longest prefix that is a
  decimal literal is read (sign, \<^verbatim>\<open>Infinity\<close> or digits with an optional fraction and
  exponent) and its value is rounded to the nearest double; NaN when there is no such
  prefix.
\<close>

definition parseFloat :: "string \<Rightarrow> number" where
  "parseFloat s =
     (let s1 = dropWhile is_space s;
          (neg, s2) =
            (case s1 of
               [] \<Rightarrow> (False, s1)
             | c # r \<Rightarrow> if c = CHR ''-'' then (True, r)
                        else if c = CHR ''+'' then (False, r) else (False, s1))
      in if take 8 s2 = ''Infinity'' then (if neg then NegInf else PosInf)
         else
           (let ip = takeWhile is_digit s2;
                r1 = dropWhile is_digit s2;
                (fp, r2) =
                  (case r1 of
                     [] \<Rightarrow> ([], r1)
                   | c # r \<Rightarrow> if c = CHR ''.''
                              then (takeWhile is_digit r, dropWhile is_digit r)
                              else ([], r1))
            in if ip = [] \<and> fp = [] then NaN
               else
                 (let m = of_nat (nat_of_digits (ip @ fp)) / 10 ^ length fp;
                      ex = exponent_part r2;
                      v = (if 0 \<le> ex then m * 10 ^ nat ex else m / 10 ^ nat (- ex))
                  in to_double (if neg then - v else v))))"

text \<open>
  \<^verbatim>\<open>s.split(/\s+/)\<close>: the fields between the maximal runs of white space; a run at the
  start or at the end leaves an empty field there. The flag says that the previous
  character was white space.
\<close>

fun split_ws_from :: "string \<Rightarrow> bool \<Rightarrow> string \<Rightarrow> string list" where
  "split_ws_from cur inws [] = [rev cur]"
| "split_ws_from cur inws (c # cs) =
     (if is_space c then
        (if inws then split_ws_from cur True cs
         else rev cur # split_ws_from [] True cs)
      else split_ws_from (c # cur) False cs)"

definition split_ws :: "string \<Rightarrow> string list" where
  "split_ws s = split_ws_from [] False s"

section \<open>Notebook types\<close>

record Point =
  px :: number
  py :: number
  pp :: number
  pt :: number

type_synonym Stroke = "Point list"

datatype cell_status = StatusIdle | StatusConverting | StatusError

datatype run_status = RunIdle | RunRunning | RunDone | RunError

record Cell =
  cell_id :: string
  cell_strokes :: "Stroke list"
  cell_recognizedCode :: "string option"
  cell_status :: "cell_status option"
  cell_error :: "string option"
  cell_runStatus :: "run_status option"
  cell_stdout :: "string option"
  cell_stderr :: "string option"
  cell_height :: "number option"

record Notebook =
  nb_version :: nat
  nb_cells :: "Cell list"

section \<open>The stroke codec (svg.ts)\<close>

subsection \<open>Encoding\<close>

definition moveTo :: "Point \<Rightarrow> string" where
  "moveTo q = ''M'' @ toFixed2 (px q) @ '' '' @ toFixed2 (py q)"

definition lineTo :: "Point \<Rightarrow> string" where
  "lineTo q = ''L'' @ toFixed2 (px q) @ '' '' @ toFixed2 (py q)"

fun strokeToPathD :: "Stroke \<Rightarrow> string" where
  "strokeToPathD [] = []"
| "strokeToPathD [q] =
     ''M'' @ toFixed2 (px q) @ '' '' @ toFixed2 (py q)
     @ '' L'' @ toFixed2 (plus_number (px q) (to_double (1 / 10)))
     @ '' '' @ toFixed2 (plus_number (py q) (to_double (1 / 10)))"
| "strokeToPathD (q # qs) = join '' '' (moveTo q # map lineTo qs)"

definition newline :: string where
  "newline = [CHR 0x0A]"

definition pathElement :: "number \<Rightarrow> Stroke \<Rightarrow> string" where
  "pathElement strokeWidth stroke =
     (let d = strokeToPathD stroke
      in if d = [] then []
         else ''  <path d=\"'' @ d @ ''\" stroke=\"#000\" stroke-width=\"''
              @ numberToString strokeWidth
              @ ''\" fill=\"none\" stroke-linecap=\"round\" stroke-linejoin=\"round\"/>'')"

definition strokesToSvg :: "Stroke list \<Rightarrow> number \<Rightarrow> number \<Rightarrow> number \<Rightarrow> string" where
  "strokesToSvg strokes width height strokeWidth =
     (let paths = join newline (filter (\<lambda>s. s \<noteq> []) (map (pathElement strokeWidth) strokes))
      in ''<?xml version=\"1.0\" encoding=\"UTF-8\"?>'' @ newline
         @ ''<svg xmlns=\"http://www.w3.org/2000/svg\" viewBox=\"0 0 ''
         @ numberToString width @ '' '' @ numberToString height
         @ ''\" width=\"'' @ numberToString width
         @ ''\" height=\"'' @ numberToString height @ ''\">'' @ newline
         @ paths @ newline
         @ ''</svg>'')"

subsection \<open>Decoding a path\<close>

text \<open>
  The pattern \<^verbatim>\<open>/([ML])\s*([\d.-]+)\s+([\d.-]+)/gi\<close> tried at the start of a string:
  the two captured groups and the rest after the match. A character of the class
  \<^verbatim>\<open>[\d.-]\<close> is never white space, so each greedy run has one possible length only and
  no backtracking changes the outcome.
\<close>

definition is_coord_char :: "char \<Rightarrow> bool" where
  "is_coord_char c = (is_digit c \<or> c = CHR ''.'' \<or> c = CHR ''-'')"

definition is_command :: "char \<Rightarrow> bool" where
  "is_command c = (c = CHR ''M'' \<or> c = CHR ''L'' \<or> c = CHR ''m'' \<or> c = CHR ''l'')"

definition match_at :: "string \<Rightarrow> (string \<times> string \<times> string) option" where
  "match_at s =
     (case s of
        [] \<Rightarrow> None
      | c # r \<Rightarrow>
          if \<not> is_command c then None
          else
            (let r1 = dropWhile is_space r;
                 a = takeWhile is_coord_char r1;
                 r2 = dropWhile is_coord_char r1;
                 ws = takeWhile is_space r2;
                 r3 = dropWhile is_space r2;
                 b = takeWhile is_coord_char r3;
                 r4 = dropWhile is_coord_char r3
             in if a = [] \<or> ws = [] \<or> b = [] then None else Some (a, b, r4)))"

lemma match_at_shorter: "match_at s = Some (a, b, r) \<Longrightarrow> length r < length s"
proof -
  assume m: "match_at s = Some (a, b, r)"
  then obtain c t where s: "s = c # t"
    by (cases s) (auto simp: match_at_def)
  let ?r1 = "dropWhile is_space t"
  let ?r2 = "dropWhile is_coord_char ?r1"
  let ?r3 = "dropWhile is_space ?r2"
  from m s have r: "r = dropWhile is_coord_char ?r3"
    by (auto simp: match_at_def Let_def split: if_splits)
  have "length r \<le> length ?r3" unfolding r by (rule length_dropWhile_le)
  also have "\<dots> \<le> length ?r2" by (rule length_dropWhile_le)
  also have "\<dots> \<le> length ?r1" by (rule length_dropWhile_le)
  also have "\<dots> \<le> length t" by (rule length_dropWhile_le)
  finally show ?thesis using s by simp
qed

text \<open>
  The loop \<^verbatim>\<open>while ((match = regex.exec(d)) !== null)\<close>: every match from left to
  right, each search starting where the last match ended.
\<close>

function exec_all :: "string \<Rightarrow> (string \<times> string) list" where
  "exec_all [] = []"
| "exec_all (c # cs) =
     (case match_at (c # cs) of
        Some (a, b, r) \<Rightarrow> (a, b) # exec_all r
      | None \<Rightarrow> exec_all cs)"
  by pat_completeness auto
termination
  by (relation "measure length") (auto dest: match_at_shorter)

definition pointOf :: "string \<times> string \<Rightarrow> Point option" where
  "pointOf m =
     (let x = parseFloat (fst m); y = parseFloat (snd m)
      in if \<not> isNaN x \<and> \<not> isNaN y
         then Some \<lparr>px = x, py = y, pp = Val (1 / 2), pt = Val 0\<rparr>
         else None)"

definition parsePathD :: "string \<Rightarrow> Stroke" where
  "parsePathD d = List.map_filter pointOf (exec_all d)"

subsection \<open>The document tree\<close>

text \<open>
  What \<^verbatim>\<open>DOMParser.parseFromString\<close> yields is held as the elements of the document in
  document order, each with its tag name and attributes. The reader below covers the
  markup this program writes and reads: start tags and empty-element tags with quoted
  attribute values; processing instructions, declarations and end tags are passed over.
  It does not check well-formedness and decodes no character references.
\<close>

datatype element = Element (tagName: string) (attributes: "(string \<times> string) list")

type_synonym document = "element list"

datatype reader =
    Content
  | Opened
  | Skipping
  | InName string
  | InTag string "(string \<times> string) list"
  | InAttrName string "(string \<times> string) list" string
  | AfterEq string "(string \<times> string) list" string
  | InValue string "(string \<times> string) list" string char string

fun read_char :: "reader \<times> element list \<Rightarrow> char \<Rightarrow> reader \<times> element list" where
  "read_char (Content, es) c = (if c = CHR ''<'' then (Opened, es) else (Content, es))"
| "read_char (Opened, es) c =
     (if c = CHR ''?'' \<or> c = CHR ''/'' \<or> c = CHR ''!'' then (Skipping, es)
      else if c = CHR ''>'' \<or> is_space c then (Content, es)
      else (InName [c], es))"
| "read_char (Skipping, es) c = (if c = CHR ''>'' then (Content, es) else (Skipping, es))"
| "read_char (InName n, es) c =
     (if c = CHR ''>'' then (Content, Element (rev n) [] # es)
      else if is_space c \<or> c = CHR ''/'' then (InTag (rev n) [], es)
      else (InName (c # n), es))"
| "read_char (InTag n as, es) c =
     (if c = CHR ''>'' then (Content, Element n (rev as) # es)
      else if is_space c \<or> c = CHR ''/'' then (InTag n as, es)
      else (InAttrName n as [c], es))"
| "read_char (InAttrName n as a, es) c =
     (if c = CHR ''='' then (AfterEq n as (rev a), es)
      else if c = CHR ''>'' then (Content, Element n (rev as) # es)
      else (InAttrName n as (c # a), es))"
| "read_char (AfterEq n as a, es) c =
     (if c = CHR 0x22 \<or> c = CHR 0x27 then (InValue n as a c [], es)
      else if is_space c then (AfterEq n as a, es)
      else if c = CHR ''>'' then (Content, Element n (rev as) # es)
      else (InTag n as, es))"
| "read_char (InValue n as a q v, es) c =
     (if c = q then (InTag n ((a, rev v) # as), es)
      else (InValue n as a q (c # v), es))"

definition parseFromString :: "string \<Rightarrow> document" where
  "parseFromString s = rev (snd (foldl read_char (Content, []) s))"

definition querySelector :: "document \<Rightarrow> string \<Rightarrow> element option" where
  "querySelector doc name = find (\<lambda>e. tagName e = name) doc"

definition querySelectorAll :: "document \<Rightarrow> string \<Rightarrow> element list" where
  "querySelectorAll doc name = filter (\<lambda>e. tagName e = name) doc"

definition getAttribute :: "element \<Rightarrow> string \<Rightarrow> string option" where
  "getAttribute e name = map_of (attributes e) name"

subsection \<open>Decoding a document\<close>

record svg_result =
  strokes_of :: "Stroke list"
  width_of :: number
  height_of :: number

text \<open>A string is truthy unless it is empty; a missing attribute is null.\<close>

definition present :: "string option \<Rightarrow> bool" where
  "present a = (case a of None \<Rightarrow> False | Some s \<Rightarrow> s \<noteq> [])"

definition dimensions :: "element option \<Rightarrow> number \<times> number" where
  "dimensions svg =
     (case svg of
        None \<Rightarrow> (Val 800, Val 320)
      | Some el \<Rightarrow>
          (let viewBox = getAttribute el ''viewBox''
           in if present viewBox then
                (let parts = split_ws (the viewBox)
                 in if 4 \<le> length parts
                    then (or_else (parseFloat (parts ! 2)) (Val 800),
                          or_else (parseFloat (parts ! 3)) (Val 320))
                    else (Val 800, Val 320))
              else
                (let w = getAttribute el ''width'';
                     h = getAttribute el ''height''
                 in (if present w then or_else (parseFloat (the w)) (Val 800) else Val 800,
                     if present h then or_else (parseFloat (the h)) (Val 320) else Val 320))))"

definition pathStrokes :: "element list \<Rightarrow> Stroke list" where
  "pathStrokes paths =
     concat (map (\<lambda>path.
        (let d = getAttribute path ''d''
         in if present d
            then (let stroke = parsePathD (the d) in if stroke \<noteq> [] then [stroke] else [])
            else [])) paths)"

definition svgToStrokes_doc :: "document \<Rightarrow> svg_result" where
  "svgToStrokes_doc doc =
     (let (w, h) = dimensions (querySelector doc ''svg'')
      in \<lparr>strokes_of = pathStrokes (querySelectorAll doc ''path''), width_of = w, height_of = h\<rparr>)"

definition svgToStrokes :: "string \<Rightarrow> svg_result" where
  "svgToStrokes svgString = svgToStrokes_doc (parseFromString svgString)"

subsection \<open>The manifest\<close>

record manifest_entry =
  e_file :: string
  e_height :: "number option"
  e_recognizedCode :: "string option"

text \<open>
  A value of type \<^verbatim>\<open>ProjectManifest\<close>. The loaders test \<^verbatim>\<open>manifest.cells\<close>, which a
  parsed manifest may lack, so the field is optional here.
\<close>

record ProjectManifest =
  m_version :: nat
  m_cells :: "manifest_entry list option"
  m_strokeWidth :: "number option"

text \<open>The template \<^verbatim>\<open>`cell-${String(idx + 1).padStart(3, "0")}.svg`\<close>.\<close>

definition cellFileName :: "nat \<Rightarrow> string" where
  "cellFileName idx = ''cell-'' @ padStart 3 (CHR ''0'') (string_of_nat (idx + 1)) @ ''.svg''"

definition createManifest :: "Cell list \<Rightarrow> number \<Rightarrow> ProjectManifest" where
  "createManifest cs strokeWidth =
     \<lparr>m_version = 1,
      m_cells = Some (map (\<lambda>(idx, cell).
                  \<lparr>e_file = cellFileName idx,
                   e_height = cell_height cell,
                   e_recognizedCode = cell_recognizedCode cell\<rparr>) (enumerate 0 cs)),
      m_strokeWidth = Some strokeWidth\<rparr>"

section \<open>Project storage (project.ts)\<close>

subsection \<open>The host\<close>

text \<open>A thrown value: an \<^verbatim>\<open>Error\<close> with its name and message, or anything else, with
  the string it converts to.\<close>

datatype thrown = ErrorObj string string | OtherValue string

text \<open>
  The functions of the host and of \<^verbatim>\<open>./id\<close> that project.ts calls and that are not part
  of it: \<^verbatim>\<open>JSON.parse\<close> (which throws, or returns a manifest, or a value with no
  properties such as null), \<^verbatim>\<open>JSON.stringify\<close>, \<^verbatim>\<open>String.localeCompare\<close>, the
  successive results of \<^verbatim>\<open>id()\<close>, and whether \<^verbatim>\<open>showDirectoryPicker\<close> exists.
\<close>

record host =
  JSON_parse :: "string \<Rightarrow> thrown + ProjectManifest option"
  JSON_stringify :: "ProjectManifest \<Rightarrow> string"
  localeCompare :: "string \<Rightarrow> string \<Rightarrow> int"
  new_id :: "nat \<Rightarrow> string"
  hasFileSystemAccess :: bool

text \<open>
  A directory and an archive alike: named members, each a file with its text, a file
  that is there and whose text cannot be read (\<^verbatim>\<open>getFile()\<close> or \<^verbatim>\<open>text()\<close> of the handle,
  \<^verbatim>\<open>async("string")\<close> of the archive member, throws: a file removed or locked after the
  listing, damaged compressed data), or a directory.

  \<open>read_member\<close> is \<^verbatim>\<open>zip.file(name)\<close> followed by \<^verbatim>\<open>async("string")\<close>: nothing for a
  missing name and for a directory (\<^verbatim>\<open>zip.file\<close> returns null), otherwise the text or
  what the read throws. \<open>read_file\<close> is \<^verbatim>\<open>getFileHandle(name)\<close>, \<^verbatim>\<open>getFile()\<close>,
  \<^verbatim>\<open>text()\<close> inside a \<^verbatim>\<open>try\<close> whose \<^verbatim>\<open>catch\<close> drops the exception: the text, or nothing
  when any of the three calls throws.
\<close>

datatype member = FileEntry string | BrokenEntry thrown | DirectoryEntry

type_synonym medium = "(string \<times> member) list"

definition read_member :: "medium \<Rightarrow> string \<Rightarrow> (thrown + string) option" where
  "read_member m name =
     (case map_of m name of
        Some (FileEntry text) \<Rightarrow> Some (Inr text)
      | Some (BrokenEntry e) \<Rightarrow> Some (Inl e)
      | _ \<Rightarrow> None)"

definition read_file :: "medium \<Rightarrow> string \<Rightarrow> string option" where
  "read_file m name =
     (case map_of m name of Some (FileEntry text) \<Rightarrow> Some text | _ \<Rightarrow> None)"

record outcome =
  success :: bool
  error :: "string option"

record load_result = outcome +
  notebook :: "Notebook option"
  strokeWidth_of :: "number option"

definition failure :: "string \<Rightarrow> outcome" where
  "failure msg = \<lparr>success = False, error = Some msg\<rparr>"

definition load_failure :: "string \<Rightarrow> load_result" where
  "load_failure msg =
     \<lparr>success = False, error = Some msg, notebook = None, strokeWidth_of = None\<rparr>"

definition load_success :: "Cell list \<Rightarrow> ProjectManifest option \<Rightarrow> load_result" where
  "load_success cs manifest =
     \<lparr>success = True, error = None,
      notebook = Some \<lparr>nb_version = 1, nb_cells = cs\<rparr>,
      strokeWidth_of = (case manifest of None \<Rightarrow> None | Some m \<Rightarrow> m_strokeWidth m)\<rparr>"

text \<open>The message of the catch clauses: \<^verbatim>\<open>e instanceof Error ? e.message : fallback\<close>.\<close>

definition message_or :: "thrown \<Rightarrow> string \<Rightarrow> string" where
  "message_or e fallback = (case e of ErrorObj n msg \<Rightarrow> msg | OtherValue s \<Rightarrow> fallback)"

definition is_abort :: "thrown \<Rightarrow> bool" where
  "is_abort e = (case e of ErrorObj n msg \<Rightarrow> n = ''AbortError'' | OtherValue s \<Rightarrow> False)"

subsection \<open>Loading\<close>

text \<open>A cell as the loaders build it; the fields they do not set are undefined.\<close>

definition loaded_cell ::
  "string \<Rightarrow> Stroke list \<Rightarrow> number \<Rightarrow> string option \<Rightarrow> Cell" where
  "loaded_cell i ss h code =
     \<lparr>cell_id = i, cell_strokes = ss, cell_recognizedCode = code,
      cell_status = None, cell_error = None, cell_runStatus = None,
      cell_stdout = None, cell_stderr = None, cell_height = Some h\<rparr>"

text \<open>
  The loop over \<^verbatim>\<open>manifest.cells\<close> of loadProject: the body is inside a \<^verbatim>\<open>try\<close>, and
  an entry whose document cannot be read, for whatever reason, is skipped by the
  \<^verbatim>\<open>catch\<close>. \<open>k\<close> counts the calls of \<^verbatim>\<open>id()\<close> so far.
\<close>

fun manifest_cells :: "host \<Rightarrow> medium \<Rightarrow> nat \<Rightarrow> manifest_entry list \<Rightarrow> Cell list" where
  "manifest_cells h dir k [] = []"
| "manifest_cells h dir k (cellInfo # rest) =
     (case read_file dir (e_file cellInfo) of
        None \<Rightarrow> manifest_cells h dir k rest
      | Some svgText \<Rightarrow>
          (let r = svgToStrokes svgText
           in loaded_cell (new_id h k) (strokes_of r)
                (nullish (e_height cellInfo) (height_of r)) (e_recognizedCode cellInfo)
              # manifest_cells h dir (Suc k) rest))"

text \<open>
  The loop over \<^verbatim>\<open>manifest.cells\<close> of importProjectFromZip: \<^verbatim>\<open>if (svgFile)\<close> skips an
  entry with no member of its name; the read of a member that is there has no \<^verbatim>\<open>try\<close>
  around it, so what it throws ends the loop and reaches the \<^verbatim>\<open>catch\<close> of the function.
\<close>

fun zip_manifest_cells ::
  "host \<Rightarrow> medium \<Rightarrow> nat \<Rightarrow> manifest_entry list \<Rightarrow> thrown + Cell list" where
  "zip_manifest_cells h archive k [] = Inr []"
| "zip_manifest_cells h archive k (cellInfo # rest) =
     (case read_member archive (e_file cellInfo) of
        None \<Rightarrow> zip_manifest_cells h archive k rest
      | Some (Inl e) \<Rightarrow> Inl e
      | Some (Inr svgText) \<Rightarrow>
          (let r = svgToStrokes svgText
           in case zip_manifest_cells h archive (Suc k) rest of
                Inl e \<Rightarrow> Inl e
              | Inr cs \<Rightarrow>
                  Inr (loaded_cell (new_id h k) (strokes_of r)
                         (nullish (e_height cellInfo) (height_of r)) (e_recognizedCode cellInfo)
                       # cs)))"

text \<open>\<^verbatim>\<open>Array.prototype.sort\<close> (stable), by insertion, for a comparison \<open>le\<close>.\<close>

fun insert_by :: "('a \<Rightarrow> 'a \<Rightarrow> bool) \<Rightarrow> 'a \<Rightarrow> 'a list \<Rightarrow> 'a list" where
  "insert_by le a [] = [a]"
| "insert_by le a (b # bs) = (if le a b then a # b # bs else b # insert_by le a bs)"

definition sort_by :: "('a \<Rightarrow> 'a \<Rightarrow> bool) \<Rightarrow> 'a list \<Rightarrow> 'a list" where
  "sort_by le as = foldr (insert_by le) as []"

text \<open>The default order of \<^verbatim>\<open>sort()\<close> on strings: by code units.\<close>

fun code_unit_le :: "string \<Rightarrow> string \<Rightarrow> bool" where
  "code_unit_le [] b = True"
| "code_unit_le (c # a) [] = False"
| "code_unit_le (c # a) (d # b) =
     ((of_char c :: nat) < of_char d \<or> (c = d \<and> code_unit_le a b))"

text \<open>
  The loop of the scan without a manifest, the same in both adapters, over the files in
  their order, each with its text or with what reading it throws: no read of the scan
  has a \<^verbatim>\<open>try\<close> around it, so the first that throws ends the loop and reaches the
  \<^verbatim>\<open>catch\<close> of the function.
\<close>

fun scanned_cells :: "host \<Rightarrow> nat \<Rightarrow> (thrown + string) list \<Rightarrow> thrown + Cell list" where
  "scanned_cells h k [] = Inr []"
| "scanned_cells h k (Inl e # rest) = Inl e"
| "scanned_cells h k (Inr svgText # rest) =
     (let r = svgToStrokes svgText
      in case scanned_cells h (Suc k) rest of
           Inl e \<Rightarrow> Inl e
         | Inr cs \<Rightarrow>
             Inr (\<lparr>cell_id = new_id h k, cell_strokes = strokes_of r,
                    cell_recognizedCode = None,
                    cell_status = None, cell_error = None, cell_runStatus = None,
                    cell_stdout = None, cell_stderr = None, cell_height = Some (height_of r)\<rparr>
                  # cs))"

text \<open>\<^verbatim>\<open>showDirectoryPicker\<close> resolves with a directory handle or throws.\<close>

datatype picked = Granted medium | Thrown thrown

text \<open>
  The entries of the directory of kind \<^verbatim>\<open>file\<close> whose name ends in \<^verbatim>\<open>.svg\<close>, each
  with what reading its handle gives.
\<close>

definition svg_files :: "medium \<Rightarrow> (string \<times> (thrown + string)) list" where
  "svg_files dir =
     List.map_filter (\<lambda>(name, handle).
        (case handle of
           FileEntry text \<Rightarrow> if endsWith name ''.svg'' then Some (name, Inr text) else None
         | BrokenEntry e \<Rightarrow> if endsWith name ''.svg'' then Some (name, Inl e) else None
         | DirectoryEntry \<Rightarrow> None)) dir"

text \<open>The \<^verbatim>\<open>catch\<close> at the end of loadProject.\<close>

definition load_caught :: "thrown \<Rightarrow> load_result" where
  "load_caught e =
     (if is_abort e then load_failure ''Cancelled''
      else load_failure (message_or e ''Load failed''))"

definition loadProject :: "host \<Rightarrow> picked \<Rightarrow> load_result" where
  "loadProject h pick =
     (if \<not> hasFileSystemAccess h then load_failure ''File System Access API not supported''
      else
        (case pick of
           Thrown e \<Rightarrow> load_caught e
         | Granted dir \<Rightarrow>
             (let manifest =
                    (case read_file dir ''manifest.json'' of
                       None \<Rightarrow> None
                     | Some manifestText \<Rightarrow>
                         (case JSON_parse h manifestText of
                            Inl e \<Rightarrow> None
                          | Inr m \<Rightarrow> m))
              in case (case (case manifest of None \<Rightarrow> None | Some m \<Rightarrow> m_cells m) of
                         Some infos \<Rightarrow> Inr (manifest_cells h dir 0 infos)
                       | None \<Rightarrow>
                           scanned_cells h 0
                             (map snd
                                (sort_by (\<lambda>a b. localeCompare h (fst a) (fst b) \<le> 0)
                                   (svg_files dir)))) of
                   Inl e \<Rightarrow> load_caught e
                 | Inr cs \<Rightarrow>
                     if cs = [] then load_failure ''No cells found in project''
                     else load_success cs manifest)))"

text \<open>
  \<^verbatim>\<open>JSZip.loadAsync(file)\<close> resolves with the archive or throws. The manifest is read
  and parsed with no \<^verbatim>\<open>try\<close> around it. In the scan, \<^verbatim>\<open>Object.keys(zip.files)\<close> are the
  member names and \<^verbatim>\<open>zip.file(name)\<close> reads each.
\<close>

definition importProjectFromZip :: "host \<Rightarrow> thrown + medium \<Rightarrow> load_result" where
  "importProjectFromZip h file =
     (case file of
        Inl e \<Rightarrow> load_failure (message_or e ''Import failed'')
      | Inr archive \<Rightarrow>
          (case (case read_member archive ''manifest.json'' of
                   None \<Rightarrow> Inr None
                 | Some (Inl e) \<Rightarrow> Inl e
                 | Some (Inr manifestText) \<Rightarrow> JSON_parse h manifestText) of
             Inl e \<Rightarrow> load_failure (message_or e ''Import failed'')
           | Inr manifest \<Rightarrow>
               (case (case (case manifest of None \<Rightarrow> None | Some m \<Rightarrow> m_cells m) of
                        Some infos \<Rightarrow> zip_manifest_cells h archive 0 infos
                      | None \<Rightarrow>
                          scanned_cells h 0
                            (List.map_filter (read_member archive)
                               (sort_by code_unit_le
                                  (filter (\<lambda>name. endsWith name ''.svg'') (map fst archive))))) of
                  Inl e \<Rightarrow> load_failure (message_or e ''Import failed'')
                | Inr cs \<Rightarrow>
                    if cs = [] then load_failure ''No cells found in ZIP''
                    else load_success cs manifest)))"

subsection \<open>Saving\<close>

text \<open>
  What a save does to the directory, in order: \<open>Created name\<close> when
  \<^verbatim>\<open>getFileHandle(name, {create: true})\<close> has resolved, \<open>Written name text\<close> when the
  writable has been written and closed. Any of these calls may throw; \<open>fault k\<close> is what
  the call that would bring effect number \<open>k\<close> throws, if it does.
\<close>

datatype fs_event = Created string | Written string string

type_synonym fault = "nat \<Rightarrow> thrown option"

definition write_file ::
  "fault \<Rightarrow> string \<Rightarrow> string \<Rightarrow> fs_event list \<Rightarrow> fs_event list \<times> thrown option" where
  "write_file f name content evs =
     (case f (length evs) of
        Some e \<Rightarrow> (evs, Some e)
      | None \<Rightarrow>
          (case f (Suc (length evs)) of
             Some e \<Rightarrow> (evs @ [Created name], Some e)
           | None \<Rightarrow> (evs @ [Created name, Written name content], None)))"

definition cellDocument :: "number \<Rightarrow> number \<Rightarrow> Cell \<Rightarrow> string" where
  "cellDocument strokeWidth canvasWidth cell =
     strokesToSvg (cell_strokes cell) canvasWidth (nullish (cell_height cell) (Val 320))
       strokeWidth"

fun write_cells ::
  "fault \<Rightarrow> number \<Rightarrow> number \<Rightarrow> nat \<Rightarrow> Cell list \<Rightarrow> fs_event list
     \<Rightarrow> fs_event list \<times> thrown option" where
  "write_cells f strokeWidth canvasWidth i [] evs = (evs, None)"
| "write_cells f strokeWidth canvasWidth i (cell # rest) evs =
     (case write_file f (cellFileName i) (cellDocument strokeWidth canvasWidth cell) evs of
        (evs', Some e) \<Rightarrow> (evs', Some e)
      | (evs', None) \<Rightarrow> write_cells f strokeWidth canvasWidth (Suc i) rest evs')"

definition save_failure :: "thrown \<Rightarrow> outcome" where
  "save_failure e =
     (if is_abort e then failure ''Cancelled'' else failure (message_or e ''Save failed''))"

definition saveProject ::
  "host \<Rightarrow> picked \<Rightarrow> fault \<Rightarrow> Cell list \<Rightarrow> number \<Rightarrow> number \<Rightarrow> outcome \<times> fs_event list" where
  "saveProject h pick f cs strokeWidth canvasWidth =
     (if \<not> hasFileSystemAccess h
      then (failure ''File System Access API not supported'', [])
      else
        (case pick of
           Thrown e \<Rightarrow> (save_failure e, [])
         | Granted dir \<Rightarrow>
             (case write_cells f strokeWidth canvasWidth 0 cs [] of
                (evs, Some e) \<Rightarrow> (save_failure e, evs)
              | (evs, None) \<Rightarrow>
                  (case write_file f ''manifest.json''
                          (JSON_stringify h (createManifest cs strokeWidth)) evs of
                     (evs', Some e) \<Rightarrow> (save_failure e, evs')
                   | (evs', None) \<Rightarrow> (\<lparr>success = True, error = None\<rparr>, evs')))))"

text \<open>
  The archive of an export: \<^verbatim>\<open>zip.file(name, data)\<close> adds a member or replaces the one
  of that name. The argument \<open>jszip\<close> is what the import of the library, the generation of
  the blob or the download throws, if any of them does.
\<close>

fun zip_cells :: "number \<Rightarrow> number \<Rightarrow> nat \<Rightarrow> Cell list \<Rightarrow> medium \<Rightarrow> medium" where
  "zip_cells strokeWidth canvasWidth i [] archive = archive"
| "zip_cells strokeWidth canvasWidth i (cell # rest) archive =
     zip_cells strokeWidth canvasWidth (Suc i) rest
       (AList.update (cellFileName i)
          (FileEntry (cellDocument strokeWidth canvasWidth cell)) archive)"

definition exportProjectAsZip ::
  "host \<Rightarrow> thrown option \<Rightarrow> Cell list \<Rightarrow> number \<Rightarrow> number \<Rightarrow> outcome \<times> medium option" where
  "exportProjectAsZip h jszip cs strokeWidth canvasWidth =
     (case jszip of
        Some e \<Rightarrow> (failure (message_or e ''Export failed''), None)
      | None \<Rightarrow>
          (\<lparr>success = True, error = None\<rparr>,
           Some (AList.update ''manifest.json''
                   (FileEntry (JSON_stringify h (createManifest cs strokeWidth)))
                   (zip_cells strokeWidth canvasWidth 0 cs []))))"

section \<open>The execution bridge (py.ts, py.worker.ts)\<close>

text \<open>\<^verbatim>\<open>String(e)\<close> of a thrown value.\<close>

definition String_of :: "thrown \<Rightarrow> string" where
  "String_of e =
     (case e of
        ErrorObj n msg \<Rightarrow> if n = [] then msg else if msg = [] then n else n @ '': '' @ msg
      | OtherValue s \<Rightarrow> s)"

subsection \<open>The worker\<close>

text \<open>
  \<^verbatim>\<open>JSON.stringify\<close> of a string (QuoteJSONString of ECMAScript, for code units below
  256): the string between double quotes, with the double quote, the backslash and the
  control characters escaped.
\<close>

definition hex_digit :: "nat \<Rightarrow> char" where
  "hex_digit d = (if d < 10 then char_of (48 + d) else char_of (87 + d))"

definition quote_char :: "char \<Rightarrow> string" where
  "quote_char c =
     (let n = (of_char c :: nat)
      in if n = 8 then [CHR 0x5C, CHR ''b'']
         else if n = 9 then [CHR 0x5C, CHR ''t'']
         else if n = 10 then [CHR 0x5C, CHR ''n'']
         else if n = 12 then [CHR 0x5C, CHR ''f'']
         else if n = 13 then [CHR 0x5C, CHR ''r'']
         else if n = 34 then [CHR 0x5C, CHR 0x22]
         else if n = 92 then [CHR 0x5C, CHR 0x5C]
         else if n < 32 then [CHR 0x5C, CHR ''u'', CHR ''0'', CHR ''0'',
                              hex_digit (n div 16), hex_digit (n mod 16)]
         else [c])"

definition quoteJSONString :: "string \<Rightarrow> string" where
  "quoteJSONString s = [CHR 0x22] @ concat (map quote_char s) @ [CHR 0x22]"

text \<open>The Python sources that the worker runs, as its template literals give them.\<close>

definition imports_source :: string where
  "imports_source =
     newline @ ''import sys'' @ newline @ ''from io import StringIO'' @ newline
     @ ''import numpy as np'' @ newline @ ''import micropip'' @ newline"

definition redirect_source :: string where
  "redirect_source =
     newline @ ''_stdout = StringIO()'' @ newline @ ''_stderr = StringIO()'' @ newline
     @ ''sys.stdout = _stdout'' @ newline @ ''sys.stderr = _stderr'' @ newline"

definition restore_source :: string where
  "restore_source =
     newline @ ''sys.stdout = sys.__stdout__'' @ newline
     @ ''sys.stderr = sys.__stderr__'' @ newline"

definition write_source :: "thrown \<Rightarrow> string" where
  "write_source e = ''sys.stderr.write('' @ quoteJSONString (String_of e) @ '')''"

text \<open>
  The host of the worker, over the states \<open>'py\<close> of the Python interpreter, of which
  nothing is assumed: what \<^verbatim>\<open>importScripts\<close> throws, if it does; the interpreter that
  \<^verbatim>\<open>loadPyodide()\<close> gives, or what it throws; and the calls on the interpreter,
  \<^verbatim>\<open>loadPackage\<close>, \<^verbatim>\<open>runPython(source)\<close> and \<^verbatim>\<open>runPythonAsync(source)\<close>, each throwing
  or returning, and leaving the interpreter in a new state either way. The value of an
  expression is taken as a string, as the casts of the source have it.
\<close>

record 'py worker_host =
  importScripts :: "thrown option"
  loadPyodide :: "thrown + 'py"
  loadPackage :: "'py \<Rightarrow> thrown option \<times> 'py"
  pyodide_runPython :: "string \<Rightarrow> 'py \<Rightarrow> (thrown + string) \<times> 'py"
  pyodide_runPythonAsync :: "string \<Rightarrow> 'py \<Rightarrow> thrown option \<times> 'py"

text \<open>
  The state of the worker is the variable \<^verbatim>\<open>pyodide\<close>: null, or the interpreter. init
  either throws, leaving the variable as the second component says (set from the moment
  \<^verbatim>\<open>loadPyodide()\<close> has resolved, whatever throws after it), or returns with the
  variable set.
\<close>

definition init :: "'py worker_host \<Rightarrow> 'py option \<Rightarrow> thrown \<times> 'py option + 'py" where
  "init w pyodide =
     (case pyodide of
        Some s \<Rightarrow> Inr s
      | None \<Rightarrow>
          (case importScripts w of
             Some e \<Rightarrow> Inl (e, None)
           | None \<Rightarrow>
               (case loadPyodide w of
                  Inl e \<Rightarrow> Inl (e, None)
                | Inr s0 \<Rightarrow>
                    (case loadPackage w s0 of
                       (Some e, s1) \<Rightarrow> Inl (e, Some s1)
                     | (None, s1) \<Rightarrow>
                         (case pyodide_runPython w imports_source s1 of
                            (Inl e, s2) \<Rightarrow> Inl (e, Some s2)
                          | (Inr v, s2) \<Rightarrow> Inr s2)))))"

text \<open>
  run: what it throws or the two texts it returns, and the variable \<^verbatim>\<open>pyodide\<close>
  afterwards. Only \<^verbatim>\<open>runPythonAsync(code)\<close> is inside the \<^verbatim>\<open>try\<close>; the redirection
  before it, the write inside the \<^verbatim>\<open>catch\<close>, the two reads and the restoration after
  it are not, and what one of them throws leaves run.
\<close>

definition run ::
  "'py worker_host \<Rightarrow> 'py option \<Rightarrow> string \<Rightarrow> (thrown + string \<times> string) \<times> 'py option" where
  "run w pyodide code =
     (case init w pyodide of
        Inl (e, p) \<Rightarrow> (Inl e, p)
      | Inr s \<Rightarrow>
          (case pyodide_runPython w redirect_source s of
             (Inl e, s1) \<Rightarrow> (Inl e, Some s1)
           | (Inr v, s1) \<Rightarrow>
               (case (case pyodide_runPythonAsync w code s1 of
                        (None, s2) \<Rightarrow> (None, s2)
                      | (Some e, s2) \<Rightarrow>
                          (case pyodide_runPython w (write_source e) s2 of
                             (Inl e', s3) \<Rightarrow> (Some e', s3)
                           | (Inr v', s3) \<Rightarrow> (None, s3))) of
                  (Some e, s3) \<Rightarrow> (Inl e, Some s3)
                | (None, s3) \<Rightarrow>
                    (case pyodide_runPython w ''_stdout.getvalue()'' s3 of
                       (Inl e, s4) \<Rightarrow> (Inl e, Some s4)
                     | (Inr stdout, s4) \<Rightarrow>
                         (case pyodide_runPython w ''_stderr.getvalue()'' s4 of
                            (Inl e, s5) \<Rightarrow> (Inl e, Some s5)
                          | (Inr stderr, s5) \<Rightarrow>
                              (case pyodide_runPython w restore_source s5 of
                                 (Inl e, s6) \<Rightarrow> (Inl e, Some s6)
                               | (Inr v'', s6) \<Rightarrow> (Inr (stdout, stderr), Some s6)))))))"

text \<open>
  The handler of the worker, for one request at a time: the response it posts, and the
  variable \<^verbatim>\<open>pyodide\<close> afterwards.
\<close>

definition worker_onmessage ::
  "'py worker_host \<Rightarrow> 'py option \<Rightarrow> string \<times> string
     \<Rightarrow> (string \<times> string \<times> string) \<times> 'py option" where
  "worker_onmessage w pyodide request =
     (let (id, code) = request
      in (case run w pyodide code of
            (Inr (stdout, stderr), p) \<Rightarrow> ((id, stdout, stderr), p)
          | (Inl err, p) \<Rightarrow> ((id, [], String_of err), p)))"

subsection \<open>The bridge\<close>

text \<open>
  A promise is pending, resolved with stdout and stderr, or rejected. The promises that
  runPython has returned are numbered in the order of the calls, and the resolve function
  of a promise is named by its number. The state of the module: whether \<^verbatim>\<open>worker\<close> is
  set, the map \<^verbatim>\<open>pending\<close>, the counter \<^verbatim>\<open>reqId\<close> (a double, exact below \<open>2^53\<close>;
  counted here in \<open>nat\<close>), the promises, every call of a resolve function so far, and the
  messages posted to the worker.
\<close>

datatype settled = Pending | Resolved string string | Rejected thrown

record bridge =
  worker :: bool
  pending :: "string \<rightharpoonup> nat"
  reqId :: nat
  promises :: "settled list"
  resolve_calls :: "(nat \<times> string \<times> string) list"
  posted :: "(string \<times> string) list"

definition initial :: bridge where
  "initial = \<lparr>worker = False, pending = Map.empty, reqId = 0, promises = [],
              resolve_calls = [], posted = []\<rparr>"

text \<open>A promise settles once: a later resolve or reject changes nothing.\<close>

definition settle :: "nat \<Rightarrow> settled \<Rightarrow> bridge \<Rightarrow> bridge" where
  "settle p v b =
     (if p < length (promises b) \<and> promises b ! p = Pending
      then b\<lparr>promises := (promises b)[p := v]\<rparr>
      else b)"

definition resolve :: "nat \<Rightarrow> string \<Rightarrow> string \<Rightarrow> bridge \<Rightarrow> bridge" where
  "resolve p stdout stderr b =
     settle p (Resolved stdout stderr)
       (b\<lparr>resolve_calls := resolve_calls b @ [(p, stdout, stderr)]\<rparr>)"

text \<open>
  What the bridge's own calls throw during one runPython, if they do: the construction
  of the worker, and \<^verbatim>\<open>postMessage\<close>.
\<close>

record transport =
  construct_throws :: "thrown option"
  post_throws :: "thrown option"

definition getWorker :: "transport \<Rightarrow> bridge \<Rightarrow> thrown + bridge" where
  "getWorker t b =
     (if worker b then Inr b
      else (case construct_throws t of
              Some e \<Rightarrow> Inl e
            | None \<Rightarrow> Inr (b\<lparr>worker := True\<rparr>)))"

text \<open>
  runPython: the number of the promise it returns, and the state after the executor has
  run. An exception thrown in the executor rejects the promise.
\<close>

definition runPython :: "transport \<Rightarrow> string \<Rightarrow> bridge \<Rightarrow> nat \<times> bridge" where
  "runPython t code b =
     (let p = length (promises b);
          b0 = b\<lparr>promises := promises b @ [Pending]\<rparr>;
          b1 = b0\<lparr>reqId := reqId b0 + 1\<rparr>;
          id = string_of_nat (reqId b1);
          b2 = b1\<lparr>pending := (pending b1)(id \<mapsto> p)\<rparr>
      in (case getWorker t b2 of
            Inl e \<Rightarrow> (p, settle p (Rejected e) b2)
          | Inr b3 \<Rightarrow>
              (case post_throws t of
                 Some e \<Rightarrow> (p, settle p (Rejected e) b3)
               | None \<Rightarrow> (p, b3\<lparr>posted := posted b3 @ [(id, code)]\<rparr>))))"

text \<open>The handler \<^verbatim>\<open>worker.onmessage\<close> of the bridge.\<close>

definition onmessage :: "string \<times> string \<times> string \<Rightarrow> bridge \<Rightarrow> bridge" where
  "onmessage response b =
     (let (id, stdout, stderr) = response
      in (case pending b id of
            Some p \<Rightarrow> resolve p stdout stderr (b\<lparr>pending := (pending b)(id := None)\<rparr>)
          | None \<Rightarrow> b))"

text \<open>
  What happens to the bridge: a call of runPython, or a message from the worker, which
  only a worker that exists can send.
\<close>

datatype bridge_event = Submit transport string | Deliver string string string

fun bridge_step :: "bridge \<Rightarrow> bridge_event \<Rightarrow> bridge" where
  "bridge_step b (Submit t code) = snd (runPython t code b)"
| "bridge_step b (Deliver tok stdout stderr) =
     (if worker b then onmessage (tok, stdout, stderr) b else b)"

definition after :: "bridge_event list \<Rightarrow> bridge" where
  "after evs = foldl bridge_step initial evs"

definition no_fault :: transport where
  "no_fault = \<lparr>construct_throws = None, post_throws = None\<rparr>"

text \<open>No call of runPython among the events has the bridge's own calls throw.\<close>

definition bridge_never_throws :: "bridge_event list \<Rightarrow> bool" where
  "bridge_never_throws evs =
     list_all (\<lambda>ev. case ev of
                      Submit t code \<Rightarrow> construct_throws t = None \<and> post_throws t = None
                    | Deliver tok stdout stderr \<Rightarrow> True) evs"

section \<open>A sample project\<close>

text \<open>
  A project whose manifest lists \<^verbatim>\<open>b.svg\<close> before \<^verbatim>\<open>a.svg\<close>, with a document missing
  between them, a manifest height that differs from the height of the document, and an
  entry with no height.
\<close>

definition sample_manifest :: ProjectManifest where
  "sample_manifest =
     \<lparr>m_version = 1,
      m_cells = Some
        [\<lparr>e_file = ''b.svg'', e_height = Some (Val 100), e_recognizedCode = Some ''x = 1''\<rparr>,
         \<lparr>e_file = ''missing.svg'', e_height = None, e_recognizedCode = None\<rparr>,
         \<lparr>e_file = ''a.svg'', e_height = None, e_recognizedCode = Some ''print(x)''\<rparr>],
      m_strokeWidth = Some (Val 4)\<rparr>"

definition sample_manifest_text :: string where
  "sample_manifest_text =
     ''{\"version\":1,\"strokeWidth\":4,\"cells\":[''
     @ ''{\"file\":\"b.svg\",\"height\":100,\"recognizedCode\":\"x = 1\"},''
     @ ''{\"file\":\"missing.svg\"},''
     @ ''{\"file\":\"a.svg\",\"recognizedCode\":\"print(x)\"}]}''"

definition sample_a :: string where
  "sample_a = ''<svg viewBox=\"0 0 800 320\"><path d=\"M1.00 2.00 L3.00 4.50\"/></svg>''"

definition sample_b :: string where
  "sample_b = ''<svg viewBox=\"0 0 800 200\"></svg>''"

definition sample_project :: medium where
  "sample_project =
     [(''a.svg'', FileEntry sample_a),
      (''b.svg'', FileEntry sample_b),
      (''manifest.json'', FileEntry sample_manifest_text)]"

text \<open>
  \<^verbatim>\<open>JSON.parse\<close> on the texts of the examples: the text of the sample manifest parses to
  it; the other text, \<^verbatim>\<open>{\<close>, is not JSON, and the parser throws a SyntaxError.
\<close>

definition sample_parse :: "string \<Rightarrow> thrown + ProjectManifest option" where
  "sample_parse text =
     (if text = sample_manifest_text then Inr (Some sample_manifest)
      else Inl (ErrorObj ''SyntaxError'' ''Unexpected end of JSON input''))"

text \<open>A host with that parser and with \<^verbatim>\<open>showDirectoryPicker\<close>, otherwise as given.\<close>

definition sample_host :: "host \<Rightarrow> host" where
  "sample_host h = h\<lparr>JSON_parse := sample_parse, hasFileSystemAccess := True\<rparr>"

text \<open>A project whose manifest is not JSON, with one document.\<close>

definition broken_project :: medium where
  "broken_project =
     [(''cell-001.svg'', FileEntry sample_a),
      (''manifest.json'', FileEntry ''{'')]"

text \<open>
  The sample project with the document \<^verbatim>\<open>b.svg\<close> there and unreadable: reading it
  throws an \<^verbatim>\<open>Error\<close> (in an archive, one that the inflation of damaged data gives).
\<close>

definition damaged_project :: medium where
  "damaged_project =
     [(''a.svg'', FileEntry sample_a),
      (''b.svg'', BrokenEntry (ErrorObj ''Error'' ''invalid stored block lengths'')),
      (''manifest.json'', FileEntry sample_manifest_text)]"

definition sample_cell :: "string option \<Rightarrow> number option \<Rightarrow> Cell" where
  "sample_cell code h =
     \<lparr>cell_id = ''c'', cell_strokes = [], cell_recognizedCode = code,
      cell_status = None, cell_error = None, cell_runStatus = None,
      cell_stdout = None, cell_stderr = None, cell_height = h\<rparr>"

section \<open>A sample worker\<close>

text \<open>
  An interpreter for the examples, as far as the worker can tell one from another: the
  two buffers, whether the imports of init have run, whether the name \<^verbatim>\<open>_stdout\<close> is
  bound, and whether \<^verbatim>\<open>sys.stderr\<close> is a stream. It runs the sources of the worker and
  four codes: one that prints, one that prints and divides by zero, one that deletes \<^verbatim>\<open>_stdout\<close>,
  and one that sets \<^verbatim>\<open>sys.stderr\<close> to None and then divides by zero.
\<close>

record toy_python =
  buf_stdout :: string
  buf_stderr :: string
  imported :: bool
  stdout_bound :: bool
  stderr_stream :: bool

definition toy_start :: toy_python where
  "toy_start = \<lparr>buf_stdout = [], buf_stderr = [], imported = False, stdout_bound = False,
                stderr_stream = True\<rparr>"

definition zero_division :: thrown where
  "zero_division = ErrorObj ''PythonError'' ''ZeroDivisionError: division by zero''"

definition name_error :: "string \<Rightarrow> thrown" where
  "name_error n = ErrorObj ''PythonError'' (''NameError: name '' @ n @ '' is not defined'')"

definition attribute_error :: thrown where
  "attribute_error = ErrorObj ''PythonError'' ''AttributeError: NoneType has no attribute write''"

definition toy_runPython :: "string \<Rightarrow> toy_python \<Rightarrow> (thrown + string) \<times> toy_python" where
  "toy_runPython source s =
     (if source = imports_source then (Inr [], s\<lparr>imported := True\<rparr>)
      else if source = redirect_source then
        (if imported s
         then (Inr [], s\<lparr>buf_stdout := [], buf_stderr := [], stdout_bound := True,
                         stderr_stream := True\<rparr>)
         else (Inl (name_error ''StringIO''), s))
      else if source = ''_stdout.getvalue()'' then
        (if stdout_bound s then (Inr (buf_stdout s), s) else (Inl (name_error ''_stdout''), s))
      else if source = ''_stderr.getvalue()'' then (Inr (buf_stderr s), s)
      else if source = restore_source then (Inr [], s)
      else if source = write_source zero_division then
        (if stderr_stream s
         then (Inr ''48'', s\<lparr>buf_stderr := buf_stderr s @ String_of zero_division\<rparr>)
         else (Inl attribute_error, s))
      else (Inl (ErrorObj ''PythonError'' ''SyntaxError''), s))"

definition toy_runPythonAsync :: "string \<Rightarrow> toy_python \<Rightarrow> thrown option \<times> toy_python" where
  "toy_runPythonAsync code s =
     (if code = ''print(1)'' then (None, s\<lparr>buf_stdout := buf_stdout s @ [CHR ''1'', CHR 0x0A]\<rparr>)
      else if code = ''print(1); 1/0'' then
        (Some zero_division, s\<lparr>buf_stdout := buf_stdout s @ [CHR ''1'', CHR 0x0A]\<rparr>)
      else if code = ''del _stdout'' then (None, s\<lparr>stdout_bound := False\<rparr>)
      else if code = ''sys.stderr = None; 1/0'' then
        (Some zero_division, s\<lparr>stderr_stream := False\<rparr>)
      else (None, s))"

definition sample_worker :: "toy_python worker_host" where
  "sample_worker =
     \<lparr>importScripts = None, loadPyodide = Inr toy_start, loadPackage = (\<lambda>s. (None, s)),
      pyodide_runPython = toy_runPython, pyodide_runPythonAsync = toy_runPythonAsync\<rparr>"

text \<open>The same worker on a host where the packages cannot be fetched.\<close>

definition offline_worker :: "toy_python worker_host" where
  "offline_worker =
     sample_worker\<lparr>loadPackage := (\<lambda>s. (Some (ErrorObj ''Error'' ''Failed to fetch''), s))\<rparr>"

section \<open>Auxiliary notions for the statements\<close>

text \<open>The effects of writing the cells from index \<open>i\<close> on, the effects of writing the
  manifest, the entries whose document can be read, and the cell built from one.\<close>

text \<open>
  A finite number of magnitude below \<open>10^21\<close>; the number of the opposite sign; and a
  point as the decoder returns it: the coordinates, with the placeholders for pressure and
  time.
\<close>

fun negate :: "number \<Rightarrow> number" where
  "negate NaN = NaN"
| "negate (Val v) = Val (- v)"
| "negate PosInf = NegInf"
| "negate NegInf = PosInf"

fun below_1e21 :: "number \<Rightarrow> bool" where
  "below_1e21 (Val v) = (\<bar>v\<bar> < 10 ^ 21)"
| "below_1e21 n = False"

definition decoded :: "Point \<Rightarrow> Point" where
  "decoded q = \<lparr>px = px q, py = py q, pp = Val (1 / 2), pt = Val 0\<rparr>"

text \<open>
  The text of \<open>n\<close> hundredths as toFixed prints it; a text of the class
  \<^verbatim>\<open>[\d.-]+\<close>; a coordinate that the round trip takes, which is a number rounded to two
  decimals (the double nearest to some number of hundredths) of magnitude below
  \<open>10^21\<close>; the \<^verbatim>\<open>L\<close> commands of a path each after a space; and a stroke of two or
  more points with such coordinates.
\<close>

definition fixed_text :: "nat \<Rightarrow> string" where
  "fixed_text n =
     string_of_nat (n div 100) @ ''.'' @ [digit_char (n div 10 mod 10), digit_char (n mod 10)]"

definition coord_text :: "string \<Rightarrow> bool" where
  "coord_text s = (s \<noteq> [] \<and> (\<forall>c\<in>set s. is_coord_char c))"

definition codable :: "number \<Rightarrow> bool" where
  "codable n = ((\<exists>k. n = to_double (of_int k / 100)) \<and> below_1e21 n)"

fun tail_text :: "Point list \<Rightarrow> string" where
  "tail_text [] = []"
| "tail_text (q # qs) = '' '' @ lineTo q @ tail_text qs"

definition codable_stroke :: "Stroke \<Rightarrow> bool" where
  "codable_stroke stroke =
     (2 \<le> length stroke \<and> (\<forall>q\<in>set stroke. codable (px q) \<and> codable (py q)))"

text \<open>
  The elements that a document written by strokesToSvg holds, and their markup: a path
  with its data and the text of its stroke width, and the svg element with the texts of
  its width and height.
\<close>

definition path_element :: "string \<Rightarrow> string \<Rightarrow> element" where
  "path_element swt d =
     Element ''path''
       [(''d'', d), (''stroke'', ''#000''), (''stroke-width'', swt), (''fill'', ''none''),
        (''stroke-linecap'', ''round''), (''stroke-linejoin'', ''round'')]"

definition svg_element :: "string \<Rightarrow> string \<Rightarrow> element" where
  "svg_element wt ht =
     Element ''svg''
       [(''xmlns'', ''http://www.w3.org/2000/svg''), (''viewBox'', ''0 0 '' @ wt @ '' '' @ ht),
        (''width'', wt), (''height'', ht)]"

definition path_text :: "string \<Rightarrow> string \<Rightarrow> string" where
  "path_text swt d =
     ''  <path d=\"'' @ d @ ''\" stroke=\"#000\" stroke-width=\"'' @ swt
     @ ''\" fill=\"none\" stroke-linecap=\"round\" stroke-linejoin=\"round\"/>''"

definition header_text :: "string \<Rightarrow> string \<Rightarrow> string" where
  "header_text wt ht =
     ''<?xml version=\"1.0\" encoding=\"UTF-8\"?>'' @ newline
     @ ''<svg xmlns=\"http://www.w3.org/2000/svg\" viewBox=\"0 0 ''
     @ wt @ '' '' @ ht @ ''\" width=\"'' @ wt @ ''\" height=\"'' @ ht @ ''\">'' @ newline"

fun cell_events :: "number \<Rightarrow> number \<Rightarrow> nat \<Rightarrow> Cell list \<Rightarrow> fs_event list" where
  "cell_events sw cw i [] = []"
| "cell_events sw cw i (c # cs) =
     Created (cellFileName i) # Written (cellFileName i) (cellDocument sw cw c)
       # cell_events sw cw (Suc i) cs"

definition manifest_events :: "host \<Rightarrow> Cell list \<Rightarrow> number \<Rightarrow> fs_event list" where
  "manifest_events h cs sw =
     [Created ''manifest.json'',
      Written ''manifest.json'' (JSON_stringify h (createManifest cs sw))]"

definition readable :: "medium \<Rightarrow> manifest_entry \<Rightarrow> bool" where
  "readable dir e = (read_file dir (e_file e) \<noteq> None)"

definition cell_from :: "medium \<Rightarrow> string \<Rightarrow> manifest_entry \<Rightarrow> Cell" where
  "cell_from dir i e =
     (let r = svgToStrokes (the (read_file dir (e_file e)))
      in loaded_cell i (strokes_of r) (nullish (e_height e) (height_of r)) (e_recognizedCode e))"

section \<open>The nearest double\<close>

lemma bit_length_bounds:
  "0 < n \<Longrightarrow> 2 ^ (bit_length n - 1) \<le> n \<and> n < 2 ^ bit_length n"
proof (induction n rule: bit_length.induct)
  case (1 n)
  show ?case
  proof (cases "n div 2 = 0")
    case True
    with "1.prems" have "n = 1" by (simp add: div_eq_0_iff)
    then show ?thesis by (simp add: bit_length.simps)
  next
    case False
    then have p: "0 < n div 2" by simp
    from "1.IH"[OF _ p] "1.prems"
    have ih: "2 ^ (bit_length (n div 2) - 1) \<le> n div 2" "n div 2 < 2 ^ bit_length (n div 2)"
      by simp_all
    have b: "bit_length n = Suc (bit_length (n div 2))"
      using "1.prems" by (subst bit_length.simps) simp
    have pos: "0 < bit_length (n div 2)"
      using p by (subst bit_length.simps) simp
    then have s: "2 ^ bit_length (n div 2) = 2 * (2::nat) ^ (bit_length (n div 2) - 1)"
      by (cases "bit_length (n div 2)") simp_all
    have "2 * 2 ^ (bit_length (n div 2) - 1) \<le> n" using ih(1) by linarith
    moreover have "n < 2 * 2 ^ bit_length (n div 2)" using ih(2) by linarith
    ultimately show ?thesis by (simp add: b s)
  qed
qed

lemma round_even_cases:
  "round_even y = \<lfloor>y\<rfloor> \<and> y - of_int \<lfloor>y\<rfloor> \<le> 1 / 2 \<or>
   round_even y = \<lfloor>y\<rfloor> + 1 \<and> 1 / 2 \<le> y - of_int \<lfloor>y\<rfloor>"
  by (auto simp: round_even_def Let_def)

lemma round_even_error: "\<bar>of_int (round_even y) - y\<bar> \<le> 1 / 2"
proof -
  have "of_int \<lfloor>y\<rfloor> \<le> y" "y < of_int \<lfloor>y\<rfloor> + 1" by linarith+
  with round_even_cases[of y] show ?thesis by auto
qed

lemma round_even_nearest: "\<bar>of_int (round_even y) - y\<bar> \<le> \<bar>of_int z - y\<bar>"
proof -
  have f: "of_int \<lfloor>y\<rfloor> \<le> y" "y < of_int \<lfloor>y\<rfloor> + 1" by linarith+
  consider "z \<le> \<lfloor>y\<rfloor>" | "\<lfloor>y\<rfloor> + 1 \<le> z" by linarith
  then show ?thesis
  proof cases
    case 1
    then have "(of_int z :: rat) \<le> of_int \<lfloor>y\<rfloor>" by simp
    with f round_even_cases[of y] show ?thesis by auto
  next
    case 2
    then have "(of_int \<lfloor>y\<rfloor> :: rat) + 1 \<le> of_int z" by (metis of_int_1 of_int_add of_int_le_iff)
    with f round_even_cases[of y] show ?thesis by auto
  qed
qed

lemma round_even_of_int [simp]: "round_even (of_int z) = z"
  by (simp add: round_even_def)

lemma binade_bounds:
  assumes "0 < x"
  shows "2 powi binade x \<le> x" "x < 2 powi (binade x + 1)"
proof -
  obtain a b where q: "quotient_of x = (a, b)" by force
  have b: "0 < b" using quotient_of_denom_pos[OF q] .
  have x: "x = of_int a / of_int b" using quotient_of_div[OF q] .
  have a: "0 < a" using assms b unfolding x by (simp add: zero_less_divide_iff)
  define la where "la = bit_length (nat a)"
  define lb where "lb = bit_length (nat b)"
  from bit_length_bounds[of "nat a"] a
  have "2 ^ (la - 1) \<le> nat a" "nat a < 2 ^ la" by (simp_all add: la_def)
  then have "int (2 ^ (la - 1)) \<le> a" "a < int (2 ^ la)" using a by linarith+
  then have ra: "(2::rat) ^ (la - 1) \<le> of_int a" "(of_int a :: rat) < 2 ^ la"
    by (metis of_int_le_iff of_int_of_nat_eq of_nat_numeral of_nat_power,
        metis of_int_less_iff of_int_of_nat_eq of_nat_numeral of_nat_power)
  from bit_length_bounds[of "nat b"] b
  have "2 ^ (lb - 1) \<le> nat b" "nat b < 2 ^ lb" by (simp_all add: lb_def)
  then have "int (2 ^ (lb - 1)) \<le> b" "b < int (2 ^ lb)" using b by linarith+
  then have rb: "(2::rat) ^ (lb - 1) \<le> of_int b" "(of_int b :: rat) < 2 ^ lb"
    by (metis of_int_le_iff of_int_of_nat_eq of_nat_numeral of_nat_power,
        metis of_int_less_iff of_int_of_nat_eq of_nat_numeral of_nat_power)
  have la1: "1 \<le> la" using a by (subst la_def, subst bit_length.simps) simp
  have lb1: "1 \<le> lb" using b by (subst lb_def, subst bit_length.simps) simp
  define d where "d = int la - int lb"
  have up: "x < 2 powi (d + 1)"
  proof -
    have "of_int a / of_int b < (2::rat) ^ la / 2 ^ (lb - 1)"
      using a ra(2) rb(1) by (intro frac_less) simp_all
    also have "\<dots> = 2 powi (int la - int (lb - 1))"
      by (simp add: power_int_diff)
    also have "int la - int (lb - 1) = d + 1" using lb1 by (simp add: d_def)
    finally show ?thesis unfolding x .
  qed
  have lo: "2 powi (d - 1) < x"
  proof -
    have "(2::rat) ^ (la - 1) / 2 ^ lb < of_int a / of_int b"
      using b ra(1) rb(2) by (intro frac_less2) simp_all
    moreover have "(2::rat) ^ (la - 1) / 2 ^ lb = 2 powi (int (la - 1) - int lb)"
      by (simp add: power_int_diff)
    moreover have "int (la - 1) - int lb = d - 1" using la1 by (simp add: d_def)
    ultimately show ?thesis unfolding x by simp
  qed
  have bin: "binade x = (if 2 powi d \<le> x then d else d - 1)"
    by (simp add: binade_def q la_def lb_def d_def)
  show "2 powi binade x \<le> x" using lo by (simp add: bin)
  show "x < 2 powi (binade x + 1)" using up by (auto simp: bin)
qed

lemma binade_eqI:
  assumes "0 < x" "2 powi e \<le> x" "x < 2 powi (e + 1)"
  shows "binade x = e"
proof -
  note b = binade_bounds[OF assms(1)]
  have "binade x < e + 1"
  proof (rule ccontr)
    assume "\<not> binade x < e + 1"
    then have "(2::rat) powi (e + 1) \<le> 2 powi binade x"
      by (intro power_int_increasing) simp_all
    with b(1) assms(3) show False by linarith
  qed
  moreover have "e < binade x + 1"
  proof (rule ccontr)
    assume "\<not> e < binade x + 1"
    then have "(2::rat) powi (binade x + 1) \<le> 2 powi e"
      by (intro power_int_increasing) simp_all
    with b(2) assms(2) show False by linarith
  qed
  ultimately show ?thesis by simp
qed

lemma powi_less_exp: "(2::rat) powi a \<le> x \<Longrightarrow> x < 2 powi b \<Longrightarrow> a < b"
proof (rule ccontr)
  assume a: "(2::rat) powi a \<le> x" "x < 2 powi b" "\<not> a < b"
  then have "(2::rat) powi b \<le> 2 powi a" by (intro power_int_increasing) simp_all
  with a show False by linarith
qed

lemma powi_split: "(2::rat) powi (a + b) = 2 powi a * 2 powi b"
  by (simp add: power_int_add)

lemma powi_pred: "(2::rat) powi (q - 1) = 2 powi q / 2"
  by (simp add: power_int_diff)

text \<open>The double nearest to a positive value in the normal range.\<close>

lemma to_double_normal:
  assumes "0 < x" "- 1022 \<le> binade x"
  shows "\<exists>m. to_double x = (if (2::rat) ^ 1024 \<le> of_int m * 2 powi (binade x - 52) then PosInf
                           else Val (of_int m * 2 powi (binade x - 52))) \<and>
             2 ^ 52 \<le> m \<and> m \<le> 2 ^ 53 \<and>
             \<bar>of_int m * 2 powi (binade x - 52) - x\<bar> \<le> 2 powi (binade x - 53) \<and>
             (\<forall>z. \<bar>of_int m * 2 powi (binade x - 52) - x\<bar>
                    \<le> \<bar>of_int z * 2 powi (binade x - 52) - x\<bar>)"
proof -
  define e where "e = binade x"
  define q where "q = e - 52"
  define u :: rat where "u = 2 powi q"
  define y where "y = x / u"
  define m where "m = round_even y"
  have u: "0 < u" by (simp add: u_def)
  have b: "2 powi e \<le> x" "x < 2 powi (e + 1)"
    using binade_bounds[OF assms(1)] by (simp_all add: e_def)
  have e52: "(2::rat) powi e = 2 ^ 52 * u"
    using powi_split[of 52 q] by (simp add: q_def u_def)
  have e53: "(2::rat) powi (e + 1) = 2 ^ 53 * u"
    using powi_split[of 53 q] by (simp add: q_def u_def add.commute)
  have y: "2 ^ 52 \<le> y" "y < 2 ^ 53"
    using b u unfolding e52 e53 y_def by (simp_all add: pos_le_divide_eq pos_divide_less_eq)
  have err: "\<bar>of_int m - y\<bar> \<le> 1 / 2" unfolding m_def by (rule round_even_error)
  have "(2::rat) ^ 52 - 1 / 2 \<le> of_int m" "(of_int m :: rat) < 2 ^ 53 + 1 / 2"
    using err y by linarith+
  then have "(of_int (2 ^ 52 - 1) :: rat) < of_int m" "(of_int m :: rat) < of_int (2 ^ 53 + 1)"
    by simp_all
  then have m: "2 ^ 52 \<le> m" "m \<le> 2 ^ 53"
    unfolding of_int_less_iff by linarith+
  have q: "ulp_exp x = q"
    using assms by (simp add: ulp_exp_def q_def e_def)
  have td: "to_double x = (if (2::rat) ^ 1024 \<le> of_int m * u then PosInf else Val (of_int m * u))"
    using assms(1) by (simp add: to_double_def q Let_def m_def y_def u_def)
  have scale: "\<bar>of_int z * u - x\<bar> = u * \<bar>of_int z - y\<bar>" for z
  proof -
    have "of_int z * u - x = u * (of_int z - y)" using u by (simp add: y_def field_simps)
    then show ?thesis using u by (simp add: abs_mult)
  qed
  have e1: "\<bar>of_int m * u - x\<bar> \<le> 2 powi (e - 53)"
  proof -
    have "u * \<bar>of_int m - y\<bar> \<le> u * (1 / 2)" using err u by (intro mult_left_mono) simp_all
    moreover have "(2::rat) powi (e - 53) = u / 2"
      using powi_pred[of q] by (simp add: q_def u_def)
    ultimately show ?thesis unfolding scale by simp
  qed
  have e2: "\<bar>of_int m * u - x\<bar> \<le> \<bar>of_int z * u - x\<bar>" for z
    unfolding scale m_def using u round_even_nearest[of y z] by (intro mult_left_mono) simp_all
  from td m e1 e2 show ?thesis
    unfolding u_def q_def e_def by blast
qed

lemma to_double_finite:
  assumes "0 < x" "- 1022 \<le> binade x" "to_double x = Val c"
  shows "\<exists>m. c = of_int m * 2 powi (binade x - 52) \<and> 2 ^ 52 \<le> m \<and> m \<le> 2 ^ 53 \<and>
             \<bar>c - x\<bar> \<le> 2 powi (binade x - 53) \<and>
             (\<forall>z. \<bar>c - x\<bar> \<le> \<bar>of_int z * 2 powi (binade x - 52) - x\<bar>)"
proof -
  from to_double_normal[OF assms(1,2)] obtain m where
    m: "to_double x = (if (2::rat) ^ 1024 \<le> of_int m * 2 powi (binade x - 52) then PosInf
                        else Val (of_int m * 2 powi (binade x - 52)))"
      "2 ^ 52 \<le> m" "m \<le> 2 ^ 53"
      "\<bar>of_int m * 2 powi (binade x - 52) - x\<bar> \<le> 2 powi (binade x - 53)"
      "\<forall>z. \<bar>of_int m * 2 powi (binade x - 52) - x\<bar>
             \<le> \<bar>of_int z * 2 powi (binade x - 52) - x\<bar>"
    by blast
  from m(1) assms(3) have c: "c = of_int m * 2 powi (binade x - 52)"
    by (simp split: if_splits)
  from m(2-5) show ?thesis unfolding c by blast
qed

lemma to_double_range:
  assumes "0 < x" "- 1022 \<le> binade x" "to_double x = Val c"
  shows "2 powi binade x \<le> c" "c \<le> 2 powi (binade x + 1)"
proof -
  from to_double_finite[OF assms] obtain m where
    m: "c = of_int m * 2 powi (binade x - 52)" "2 ^ 52 \<le> m" "m \<le> 2 ^ 53"
    by blast
  have u: "(0::rat) < 2 powi (binade x - 52)" by simp
  have lo: "(2::rat) powi binade x = 2 ^ 52 * 2 powi (binade x - 52)"
    using powi_split[of 52 "binade x - 52"] by simp
  have hi: "(2::rat) powi (binade x + 1) = 2 ^ 53 * 2 powi (binade x - 52)"
    using powi_split[of 53 "binade x - 52"] by (simp add: add.commute)
  have "(2::rat) ^ 52 \<le> of_int m" "(of_int m :: rat) \<le> 2 ^ 53"
    using m(2,3) by (simp_all add: numeral_power_le_of_int_cancel_iff
        of_int_le_numeral_power_cancel_iff)
  then show "2 powi binade x \<le> c" "c \<le> 2 powi (binade x + 1)"
    unfolding lo hi m(1) using u by (simp_all add: mult_right_mono)
qed

lemma to_double_finite_below:
  assumes "0 < x" "binade x < 1023" "- 1022 \<le> binade x"
  shows "\<exists>c. to_double x = Val c"
proof -
  from to_double_normal[OF assms(1,3)] obtain m where
    m: "to_double x = (if (2::rat) ^ 1024 \<le> of_int m * 2 powi (binade x - 52) then PosInf
                        else Val (of_int m * 2 powi (binade x - 52)))"
      "m \<le> 2 ^ 53"
    by blast
  have hi: "(2::rat) powi (binade x + 1) = 2 ^ 53 * 2 powi (binade x - 52)"
    using powi_split[of 53 "binade x - 52"] by (simp add: add.commute)
  have "(of_int m :: rat) \<le> 2 ^ 53"
    using m(2) by (simp add: of_int_le_numeral_power_cancel_iff)
  then have "of_int m * 2 powi (binade x - 52) \<le> (2::rat) powi (binade x + 1)"
    unfolding hi by (simp add: mult_right_mono)
  also have "\<dots> \<le> 2 powi 1023"
    using assms(2) by (intro power_int_increasing) simp_all
  finally have "\<not> (2::rat) ^ 1024 \<le> of_int m * 2 powi (binade x - 52)" by simp
  with m(1) show ?thesis by simp
qed

text \<open>Among the doubles, the one that to_double gives is nearest.\<close>

lemma to_double_nearest:
  assumes x: "0 < x" "- 1022 \<le> binade x" "to_double x = Val r"
      and d: "0 < x0" "- 1022 \<le> binade x0" "to_double x0 = Val d"
  shows "\<bar>r - x\<bar> \<le> \<bar>d - x\<bar>"
proof -
  from to_double_finite[OF x] have
    near: "\<And>z. \<bar>r - x\<bar> \<le> \<bar>of_int z * 2 powi (binade x - 52) - x\<bar>"
    by blast
  from to_double_finite[OF d] obtain m0 where
    m0: "d = of_int m0 * 2 powi (binade x0 - 52)" by blast
  show ?thesis
  proof (cases "binade x \<le> binade x0")
    case True
    define j where "j = nat (binade x0 - binade x)"
    have "binade x0 - 52 = int j + (binade x - 52)" using True by (simp add: j_def)
    then have "(2::rat) powi (binade x0 - 52) = 2 powi (int j + (binade x - 52))"
      by (simp only:)
    then have "(2::rat) powi (binade x0 - 52) = 2 ^ j * 2 powi (binade x - 52)"
      unfolding powi_split by simp
    then have "d = of_int (m0 * 2 ^ j) * 2 powi (binade x - 52)"
      unfolding m0 by simp
    then show ?thesis using near[of "m0 * 2 ^ j"] by simp
  next
    case False
    then have "binade x0 + 1 \<le> binade x" by simp
    then have "(2::rat) powi (binade x0 + 1) \<le> 2 powi binade x"
      by (intro power_int_increasing) simp_all
    with to_double_range(2)[OF d] binade_bounds(1)[OF x(1)]
    have le: "d \<le> 2 powi binade x" "2 powi binade x \<le> x" by linarith+
    have "(2::rat) powi binade x = of_int (2 ^ 52) * 2 powi (binade x - 52)"
      using powi_split[of 52 "binade x - 52"] by simp
    with near[of "2 ^ 52"] have "\<bar>r - x\<bar> \<le> \<bar>2 powi binade x - x\<bar>" by simp
    with le show ?thesis by linarith
  qed
qed

lemma binade_moderate:
  assumes "1 / 128 \<le> x" "x < 2 ^ 70"
  shows "- 7 \<le> binade x" "binade x < 70"
proof -
  have p: "0 < x" using assms(1) by linarith
  note b = binade_bounds[OF p]
  have "(2::rat) powi (- 7) \<le> x" using assms(1) by (simp add: power_int_minus_divide)
  from powi_less_exp[OF this b(2)] show "- 7 \<le> binade x" by simp
  have "x < (2::rat) powi 70" using assms(2) by simp
  from powi_less_exp[OF b(1) this] show "binade x < 70" .
qed

lemma binade_low: "1 / 128 \<le> x \<Longrightarrow> - 7 \<le> binade x"
proof -
  assume a: "1 / 128 \<le> x"
  then have p: "0 < x" by linarith
  have "(2::rat) powi (- 7) \<le> x" using a by (simp add: power_int_minus_divide)
  from powi_less_exp[OF this binade_bounds(2)[OF p]] show ?thesis by simp
qed

lemma grid64: "- 6 \<le> q \<Longrightarrow> \<exists>z. of_int m * 2 powi q * 64 = (of_int z :: rat)"
proof -
  assume q: "- 6 \<le> q"
  have "(2::rat) powi q * 64 = 2 powi (q + 6)" by (simp add: powi_split)
  also have "\<dots> = 2 ^ nat (q + 6)" using q by (simp add: power_int_nonneg_exp)
  finally have "of_int m * 2 powi q * 64 = (of_int (m * 2 ^ nat (q + 6)) :: rat)" by simp
  then show ?thesis by blast
qed

lemma of_int_small: "\<bar>of_int z :: rat\<bar> < 1 \<Longrightarrow> z = 0"
proof -
  assume "\<bar>of_int z :: rat\<bar> < 1"
  then have "(of_int \<bar>z\<bar> :: rat) < of_int 1" by simp
  then have "\<bar>z\<bar> < 1" unfolding of_int_less_iff .
  then show ?thesis by simp
qed

text \<open>
  A positive double that is the nearest one to some number of hundredths, below
  \<open>10^21\<close>, is the double nearest to its own nearest number of hundredths.
\<close>

lemma hundredths_round_trip_pos:
  assumes k: "0 < k" and c: "to_double (of_int k / 100) = Val c" and b: "c < 10 ^ 21"
  shows "to_double (of_int \<lfloor>c * 100 + 1 / 2\<rfloor> / 100) = Val c"
proof -
  define x0 :: rat where "x0 = of_int k / 100"
  have "(1::rat) \<le> of_int k" using k by simp
  then have x0: "1 / 100 \<le> x0" by (simp add: x0_def)
  then have p0: "0 < x0" by linarith
  define e0 where "e0 = binade x0"
  have l0: "- 7 \<le> e0" unfolding e0_def using x0 by (intro binade_low) linarith
  then have n0: "- 1022 \<le> binade x0" by (simp add: e0_def)
  have c0: "to_double x0 = Val c" using c by (simp add: x0_def)
  note rg = to_double_range[OF p0 n0 c0, folded e0_def]
  have "(2::rat) powi (- 7) \<le> 2 powi e0" using l0 by (intro power_int_increasing) simp_all
  with rg(1) have cl: "1 / 128 \<le> c" by (simp add: power_int_minus_divide)
  then have cp: "0 < c" by linarith
  from to_double_finite[OF p0 n0 c0] obtain m0 where
    m0: "c = of_int m0 * 2 powi (e0 - 52)" and err0: "\<bar>c - x0\<bar> \<le> 2 powi (e0 - 53)"
    unfolding e0_def by blast
  define n where "n = \<lfloor>c * 100 + 1 / 2\<rfloor>"
  define x' :: rat where "x' = of_int n / 100"
  have fl: "of_int n \<le> c * 100 + 1 / 2" "c * 100 + 1 / 2 < of_int n + 1"
    unfolding n_def by linarith+
  then have half: "\<bar>of_int n - c * 100\<bar> \<le> 1 / 2" by linarith
  have "x' - c = (of_int n - c * 100) / 100" by (simp add: x'_def field_simps)
  then have "\<bar>x' - c\<bar> = \<bar>of_int n - c * 100\<bar> / 100" by (simp only: abs_divide abs_numeral)
  with half have near: "\<bar>x' - c\<bar> \<le> 1 / 200" by simp
  then have nr: "x' \<le> c + 1 / 200" "c \<le> x' + 1 / 200"
    unfolding abs_le_iff by linarith+
  have "(1::rat) < of_int n + 1" using fl(2) cl by linarith
  then have "(of_int 0 :: rat) < of_int n" by simp
  then have "0 < n" unfolding of_int_less_iff .
  then have "(1::rat) \<le> of_int n" by simp
  then have x'l: "1 / 100 \<le> x'" by (simp add: x'_def)
  then have p': "0 < x'" by linarith
  have big: "(10::rat) ^ 21 + 1 < 2 ^ 70" by simp
  have x'u: "x' < 2 ^ 70" using nr b big by linarith
  have "1 / 128 \<le> x'" using x'l by linarith
  note e' = binade_moderate[OF this x'u]
  then have n': "- 1022 \<le> binade x'" by simp
  from to_double_finite_below[OF p' _ n'] e'(2) obtain r where r: "to_double x' = Val r"
    by auto
  have nearest: "\<bar>r - x'\<bar> \<le> \<bar>c - x'\<bar>"
    by (rule to_double_nearest[OF p' n' r p0 n0 c0])
  have "r = c"
  proof (cases "of_int \<lfloor>c * 100\<rfloor> = c * 100")
    case True
    then obtain z where z: "c * 100 = of_int z" by metis
    have "n = z" unfolding n_def z by (intro floor_unique) simp_all
    then have "x' = c" using z by (simp add: x'_def)
    with nearest show ?thesis by simp
  next
    case notA: False
    show ?thesis
    proof (cases "e0 \<le> 45")
      case True
      then have "(2::rat) powi (e0 - 53) \<le> 2 powi (- 8)"
        by (intro power_int_increasing) simp_all
      with err0 have "\<bar>c - x0\<bar> \<le> 1 / 256" by (simp add: power_int_minus_divide)
      then have "c - of_int k / 100 \<le> 1 / 256" "of_int k / 100 - c \<le> 1 / 256"
        unfolding x0_def abs_le_iff by linarith+
      then have "of_int k \<le> c * 100 + 1 / 2" "c * 100 + 1 / 2 < of_int k + 1"
        by linarith+
      then have "n = k" unfolding n_def by (intro floor_unique)
      then have "x' = x0" by (simp add: x'_def x0_def)
      with r c0 show ?thesis by simp
    next
      case False
      then have h: "46 \<le> e0" by simp
      then have "- 6 \<le> e0 - 52" by simp
      from grid64[OF this, of m0] obtain zc where zc: "c * 64 = of_int zc"
        unfolding m0 by blast
      have "(2::rat) powi 46 \<le> 2 powi e0" using h by (intro power_int_increasing) simp_all
      with rg(1) have c46: "2 ^ 46 \<le> c" by simp
      have "\<bar>c - x'\<bar> \<le> 1 / 200" using near by (simp only: abs_minus_commute)
      with nearest have "\<bar>r - x'\<bar> \<le> 1 / 200" by linarith
      then have "r \<le> x' + 1 / 200" "x' \<le> r + 1 / 200" unfolding abs_le_iff by linarith+
      with nr have rc: "r - c \<le> 1 / 100" "c - r \<le> 1 / 100" by linarith+
      have "(2::rat) ^ 45 + 1 / 200 \<le> 2 ^ 46" by simp
      with c46 nr have "(2::rat) ^ 45 \<le> x'" by linarith
      then have "(2::rat) powi 45 \<le> x'" by simp
      from powi_less_exp[OF this binade_bounds(2)[OF p']] have e45: "45 \<le> binade x'" by simp
      from to_double_finite[OF p' n' r] obtain m' where
        m': "r = of_int m' * 2 powi (binade x' - 52)" by blast
      show ?thesis
      proof (cases "46 \<le> binade x'")
        case True
        then have "- 6 \<le> binade x' - 52" by simp
        from grid64[OF this, of m'] obtain zr where zr: "r * 64 = of_int zr"
          unfolding m' by blast
        have eq: "(of_int (zr - zc) :: rat) = (r - c) * 64" using zr zc by (simp add: algebra_simps)
        have "\<bar>(r - c) * 64\<bar> < 1" using rc unfolding abs_less_iff by auto
        then have "\<bar>of_int (zr - zc) :: rat\<bar> < 1" by (simp only: eq)
        then have "zr = zc" using of_int_small by fastforce
        with zr zc have "r * 64 = c * 64" by simp
        then show ?thesis by simp
      next
        case False
        with e45 have "binade x' + 1 = 46" by simp
        with binade_bounds(2)[OF p'] have "x' < 2 powi 46" by simp
        then have "c < 2 ^ 46 + 1 / 200" using nr by simp
        then have "\<bar>(c - 2 ^ 46) * 64\<bar> < 1"
          using c46 unfolding abs_less_iff by auto
        moreover have "(of_int (zc - 2 ^ 52) :: rat) = (c - 2 ^ 46) * 64"
          using zc by (simp add: algebra_simps)
        ultimately have "\<bar>of_int (zc - 2 ^ 52) :: rat\<bar> < 1" by (simp only:)
        then have "zc = 2 ^ 52" using of_int_small by fastforce
        with zc have "c * 64 = 2 ^ 52" by simp
        then have "c = 2 ^ 46" by simp
        then have "c * 100 = of_int (2 ^ 46 * 100)" by simp
        then have "of_int \<lfloor>c * 100\<rfloor> = c * 100" by (simp only: floor_of_int)
        with notA show ?thesis by simp
      qed
    qed
  qed
  with r show ?thesis by (simp add: x'_def n_def)
qed

lemma to_double_minus: "to_double (- x) = negate (to_double x)"
  by (simp add: to_double_def ulp_exp_def Let_def)

text \<open>A value on the grid of its binade is a double.\<close>

lemma to_double_exact:
  assumes "0 < x" "- 1022 \<le> binade x" "x < 2 ^ 1024"
    and "x / 2 powi (binade x - 52) = of_int z"
  shows "to_double x = Val x"
proof -
  have u: "(2::rat) powi (binade x - 52) \<noteq> 0" by simp
  have q: "ulp_exp x = binade x - 52" using assms(1,2) by (simp add: ulp_exp_def)
  have r: "of_int z * 2 powi (binade x - 52) = x"
    using assms(4)[symmetric] by simp
  show ?thesis
    using assms(1,3) by (simp add: to_double_def q Let_def assms(4) r)
qed

lemma binade_nat:
  assumes "0 < n" "n < 2 ^ 53"
  shows "0 \<le> binade (of_nat n)" "binade (of_nat n) \<le> 52"
proof -
  have p: "(0::rat) < of_nat n" using assms(1) by simp
  note b = binade_bounds[OF p]
  have "(2::rat) powi 0 \<le> of_nat n" using assms(1) by simp
  from powi_less_exp[OF this b(2)] show "0 \<le> binade (of_nat n)" by simp
  have "(of_nat n :: rat) < of_nat (2 ^ 53)" using assms(2) unfolding of_nat_less_iff .
  then have "(of_nat n :: rat) < 2 powi 53" by simp
  from powi_less_exp[OF b(1) this] show "binade (of_nat n) \<le> 52" by simp
qed

lemma to_double_of_nat:
  assumes "n < 2 ^ 53"
  shows "to_double (of_nat n) = Val (of_nat n)"
proof (cases "n = 0")
  case True
  then show ?thesis by (simp add: to_double_def)
next
  case False
  then have n: "0 < n" by simp
  note e = binade_nat[OF n assms]
  define j where "j = nat (52 - binade (of_nat n))"
  have "binade (rat_of_nat n) - 52 = - int j" using e by (simp add: j_def)
  then have "(2::rat) powi (binade (of_nat n) - 52) = 1 / 2 ^ j"
    by (simp add: power_int_minus_divide)
  then have z: "of_nat n / 2 powi (binade (of_nat n) - 52) = (of_int (int n * 2 ^ j) :: rat)"
    by simp
  have "(of_nat n :: rat) < of_nat (2 ^ 53)" using assms unfolding of_nat_less_iff .
  then have "(of_nat n :: rat) < 2 ^ 1024" by simp
  then show ?thesis
    using n e by (intro to_double_exact[OF _ _ _ z]) simp_all
qed

lemma to_double_numeral [simp]:
  "numeral w < (2::nat) ^ 53 \<Longrightarrow> to_double (numeral w) = Val (numeral w)"
  using to_double_of_nat[of "numeral w"] by simp

lemma to_double_0 [simp]: "to_double 0 = Val 0"
  by (simp add: to_double_def)

lemma to_double_1 [simp]: "to_double 1 = Val 1"
  using to_double_of_nat[of 1] by simp

lemma digit_chars:
  "digit_char 0 = CHR ''0''" "digit_char 1 = CHR ''1''" "digit_char 2 = CHR ''2''"
  "digit_char 3 = CHR ''3''" "digit_char 4 = CHR ''4''" "digit_char 8 = CHR ''8''"
  "digit_char (Suc 0) = CHR ''1''"
  by code_simp+

lemma quotient_of_nat: "quotient_of (of_nat n) = (int n, 1)"
  using quotient_of_int[of "int n"] by simp

lemma decimal_exp_numeral:
  "decimal_exp (numeral w) =
     (let d = int (length (nat_digits (numeral w))) - 1
      in if 10 powi d \<le> (numeral w :: rat) then d + 1 else d)"
  using quotient_of_nat[of "numeral w"]
  by (simp add: decimal_exp_def nat_digits.simps[of "Suc 0"] del: of_nat_numeral)

lemma toString_800: "toString_pos 800 = ''800''"
proof -
  have d: "decimal_exp 800 = 3"
    by (simp add: decimal_exp_numeral nat_digits.simps)
  have r: "reads_as 800 8 2" "\<not> reads_as 800 9 2"
    by (simp_all add: reads_as_def)
  have s: "shortest 17 800 2 = (8, 2)"
    by (simp add: numeral_eq_Suc digits_at_def r) 
  show ?thesis
    by (simp add: toString_pos_def sig_digits_def d s nat_digits.simps strip_trailing_zeros_def
          digit_chars numeral_2_eq_2)
qed

lemma toString_4: "toString_pos 4 = ''4''"
proof -
  have d: "decimal_exp 4 = 1"
    by (simp add: decimal_exp_numeral nat_digits.simps)
  have r: "reads_as 4 4 0" "\<not> reads_as 4 5 0"
    by (simp_all add: reads_as_def)
  have s: "shortest 17 4 0 = (4, 0)"
    by (simp add: numeral_eq_Suc digits_at_def r)
  show ?thesis
    by (simp add: toString_pos_def sig_digits_def d s nat_digits.simps strip_trailing_zeros_def
          digit_chars)
qed

lemma binade_1e21: "binade 1000000000000000000000 = 69"
  by (rule binade_eqI) simp_all

lemma double_1e21: "to_double 1000000000000000000000 = Val 1000000000000000000000"
proof -
  have z: "(1000000000000000000000::rat) / 2 powi (binade 1000000000000000000000 - 52)
           = of_int 7629394531250000"
    unfolding binade_1e21 by simp
  show ?thesis
    by (rule to_double_exact[OF _ _ _ z]) (simp_all add: binade_1e21)
qed

lemma binade_2e21: "binade 2000000000000000000000 = 70"
  by (rule binade_eqI) simp_all

lemma double_2e21: "to_double 2000000000000000000000 = Val 2000000000000000000000"
proof -
  have z: "(2000000000000000000000::rat) / 2 powi (binade 2000000000000000000000 - 52)
           = of_int 7629394531250000"
    unfolding binade_2e21 by simp
  show ?thesis
    by (rule to_double_exact[OF _ _ _ z]) (simp_all add: binade_2e21)
qed

lemma toString_1e21: "toString_pos 1000000000000000000000 = ''1e+21''"
proof -
  have q: "quotient_of (1000000000000000000000::rat) = (1000000000000000000000, 1)"
    using quotient_of_int[of 1000000000000000000000] by simp
  have n: "nat_digits 1000000000000000000000
           = [1, 0, 0, 0, 0, 0, 0, 0, 0, 0, 0, 0, 0, 0, 0, 0, 0, 0, 0, 0, 0, 0]"
    by (simp add: nat_digits.simps)
  have d: "decimal_exp 1000000000000000000000 = 22"
    using n by (simp add: decimal_exp_def q nat_digits.simps[of "Suc 0"])
  have r: "reads_as 1000000000000000000000 1 21" "\<not> reads_as 1000000000000000000000 2 21"
    using double_1e21 double_2e21 by (simp_all add: reads_as_def)
  have s: "shortest 17 1000000000000000000000 21 = (1, 21)"
    using r by (simp add: numeral_eq_Suc digits_at_def)
  have e: "string_of_nat 21 = ''21''"
    by (simp add: string_of_nat.simps digit_chars)
  show ?thesis
    by (simp add: toString_pos_def sig_digits_def d s nat_digits.simps
          strip_trailing_zeros_def digit_chars e)
qed

lemma hundredths_pos:
  assumes "0 < k" "to_double (of_int k / 100) = Val c"
  shows "0 < c"
proof -
  have "(1::rat) \<le> of_int k" using assms(1) by simp
  then have x: "(1::rat) / 128 \<le> of_int k / 100" by simp
  then have p: "(0::rat) < of_int k / 100" by linarith
  have n: "- 1022 \<le> binade (of_int k / 100)" using binade_low[OF x] by simp
  from to_double_range(1)[OF p n assms(2)] have "(2::rat) powi binade (of_int k / 100) \<le> c" .
  moreover have "(0::rat) < 2 powi binade (of_int k / 100)" by simp
  ultimately show ?thesis by linarith
qed

lemma hundredths_small_pos:
  assumes "0 < k" "k < 10 ^ 22"
  shows "\<exists>c. to_double (of_int k / 100) = Val c \<and> 0 < c \<and> c < 10 ^ 21"
proof -
  define x :: rat where "x = of_int k / 100"
  have "(1::rat) \<le> of_int k" using assms(1) by simp
  then have l: "1 / 128 \<le> x" by (simp add: x_def)
  then have p: "0 < x" by linarith
  have "(of_int k :: rat) < of_int (10 ^ 22)" using assms(2) unfolding of_int_less_iff .
  then have "x < 10 ^ 20" by (simp add: x_def)
  then have u: "x < 2 powi 67" by simp
  then have "x < 2 ^ 70" by simp
  note e = binade_moderate[OF l this]
  from powi_less_exp[OF binade_bounds(1)[OF p] u] have e67: "binade x + 1 \<le> 67" by simp
  have n: "- 1022 \<le> binade x" using e(1) by simp
  from to_double_finite_below[OF p _ n] e(2) obtain c where c: "to_double x = Val c" by auto
  have "c \<le> 2 powi (binade x + 1)" by (rule to_double_range(2)[OF p n c])
  also have "\<dots> \<le> 2 powi 67" using e67 by (intro power_int_increasing) simp_all
  also have "\<dots> < 10 ^ 21" by simp
  finally have "c < 10 ^ 21" .
  moreover have "0 < c" using hundredths_pos[OF assms(1)] c by (simp add: x_def)
  ultimately show ?thesis using c by (simp add: x_def)
qed

lemma hundredths_small: "\<bar>k\<bar> < 10 ^ 22 \<Longrightarrow> below_1e21 (to_double (of_int k / 100))"
proof -
  assume a: "\<bar>k\<bar> < 10 ^ 22"
  consider "0 < k" | "k = 0" | "k < 0" by linarith
  then show ?thesis
  proof cases
    case 1
    with a hundredths_small_pos[of k] show ?thesis by auto
  next
    case 2
    then show ?thesis by simp
  next
    case 3
    with a hundredths_small_pos[of "- k"] obtain c where
      c: "to_double (of_int (- k) / 100) = Val c" "0 < c" "c < 10 ^ 21" by auto
    have "to_double (of_int k / 100) = negate (to_double (of_int (- k) / 100))"
      using to_double_minus[of "of_int (- k) / 100"] by simp
    with c show ?thesis by simp
  qed
qed

lemma three_halves: "to_double (3 / 2) = Val (3 / 2)"
proof -
  have b: "binade (3 / 2) = 0" by (rule binade_eqI) simp_all
  have z: "(3 / 2 :: rat) / 2 powi (binade (3 / 2) - 52) = of_int (3 * 2 ^ 51)"
    unfolding b by (simp add: power_int_minus_divide)
  show ?thesis by (rule to_double_exact[OF _ _ _ z]) (simp_all add: b)
qed

section \<open>Saving: the order of the writes\<close>

lemma string_of_nat_length3: "n < 1000 \<Longrightarrow> length (string_of_nat n) \<le> 3"
  by (subst string_of_nat.simps, subst string_of_nat.simps, subst string_of_nat.simps) (auto)

lemma createManifest_nth:
  assumes "i < length cs"
  shows "the (m_cells (createManifest cs sw)) ! i =
     \<lparr>e_file = cellFileName i, e_height = cell_height (cs ! i),
      e_recognizedCode = cell_recognizedCode (cs ! i)\<rparr>"
  using assms by (simp add: createManifest_def nth_enumerate_eq)

lemma write_file_cases:
  "write_file f n c evs = (evs', r) \<Longrightarrow>
     (r = None \<and> evs' = evs @ [Created n, Written n c]) \<or>
     (r \<noteq> None \<and> (evs' = evs \<or> evs' = evs @ [Created n]))"
  by (fastforce simp: write_file_def split: option.splits)

lemma write_cells_log:
  "write_cells f sw cw i cs evs = (evs', r) \<Longrightarrow>
     \<exists>ext. evs' = evs @ ext \<and> prefix ext (cell_events sw cw i cs) \<and>
           (r = None \<longrightarrow> ext = cell_events sw cw i cs)"
proof (induction cs arbitrary: i evs)
  case Nil
  then show ?case by simp
next
  case (Cons c cs)
  obtain l1 r1 where w: "write_file f (cellFileName i) (cellDocument sw cw c) evs = (l1, r1)"
    by (cases "write_file f (cellFileName i) (cellDocument sw cw c) evs")
  show ?case
  proof (cases r1)
    case None
    with w have l1: "l1 = evs @ [Created (cellFileName i), Written (cellFileName i) (cellDocument sw cw c)]"
      using write_file_cases by blast
    from Cons.prems w None have "write_cells f sw cw (Suc i) cs l1 = (evs', r)" by simp
    from Cons.IH[OF this] obtain ext where
      "evs' = l1 @ ext" "prefix ext (cell_events sw cw (Suc i) cs)"
      "r = None \<longrightarrow> ext = cell_events sw cw (Suc i) cs" by blast
    then show ?thesis using l1
      by (intro exI[of _ "Created (cellFileName i) # Written (cellFileName i) (cellDocument sw cw c) # ext"]) simp
  next
    case (Some e)
    with Cons.prems w have "evs' = l1" "r = Some e" by simp_all
    moreover from w Some have "l1 = evs \<or> l1 = evs @ [Created (cellFileName i)]"
      using write_file_cases by blast
    ultimately show ?thesis by auto
  qed
qed

lemma cell_events_names: "ev \<in> set (cell_events sw cw i cs) \<Longrightarrow>
   (\<exists>j c. ev = Created (cellFileName j) \<or> ev = Written (cellFileName j) c)"
  by (induction cs arbitrary: i) auto

lemma cellFileName_not_manifest: "cellFileName j \<noteq> ''manifest.json''"
  by (simp add: cellFileName_def)

lemma cell_events_nth:
  "j < length cs \<Longrightarrow> Written (cellFileName (i + j)) (cellDocument sw cw (cs ! j)) \<in> set (cell_events sw cw i cs)"
proof (induction cs arbitrary: i j)
  case Nil then show ?case by simp
next
  case (Cons c cs)
  show ?case
  proof (cases j)
    case 0 then show ?thesis by simp
  next
    case (Suc j')
    with Cons.prems have "j' < length cs" by simp
    from Cons.IH[OF this, of "Suc i"] Suc show ?thesis by simp
  qed
qed

lemma write_file_manifest_cases:
  "write_file f ''manifest.json'' (JSON_stringify h (createManifest cs sw)) evs = (evs', r) \<Longrightarrow>
     \<exists>ext. evs' = evs @ ext \<and> prefix ext (manifest_events h cs sw) \<and>
        (r = None \<longrightarrow> ext = manifest_events h cs sw)"
  unfolding manifest_events_def
  by (drule write_file_cases) auto

lemma not_success_save_failure [simp]: "\<not> success (save_failure e)"
  by (simp add: save_failure_def failure_def)

lemma not_success_failure [simp]: "\<not> success (failure msg)"
  by (simp add: failure_def)

lemma saveProject_log:
  assumes "saveProject h pick f cs sw cw = (res, evs)"
  shows "prefix evs (cell_events sw cw 0 cs @ manifest_events h cs sw) \<and>
         (success res \<longrightarrow> evs = cell_events sw cw 0 cs @ manifest_events h cs sw)"
proof (cases "hasFileSystemAccess h")
  case False
  with assms show ?thesis by (auto simp: saveProject_def)
next
  case True
  show ?thesis
  proof (cases pick)
    case (Thrown e)
    with assms True show ?thesis
      by (auto simp: saveProject_def)
  next
    case (Granted dir)
    obtain l1 r1 where w: "write_cells f sw cw 0 cs [] = (l1, r1)"
      by (cases "write_cells f sw cw 0 cs []")
    from write_cells_log[OF w] have l1: "prefix l1 (cell_events sw cw 0 cs)"
      "r1 = None \<longrightarrow> l1 = cell_events sw cw 0 cs" by auto
    show ?thesis
    proof (cases r1)
      case (Some e)
      with assms True Granted w have "evs = l1" "\<not> success res"
        by (auto simp: saveProject_def)
      with l1 show ?thesis by (simp add: prefix_prefix)
    next
      case None
      obtain l2 r2 where w2: "write_file f ''manifest.json''
          (JSON_stringify h (createManifest cs sw)) l1 = (l2, r2)"
        by (cases "write_file f ''manifest.json'' (JSON_stringify h (createManifest cs sw)) l1")
      from write_file_manifest_cases[OF w2] obtain ext where ext:
        "l2 = l1 @ ext" "prefix ext (manifest_events h cs sw)"
        "r2 = None \<longrightarrow> ext = manifest_events h cs sw" by blast
      from assms True Granted w None w2 have "evs = l2" "success res \<longrightarrow> r2 = None"
        by (auto simp: saveProject_def split: option.splits)
      with ext l1 None show ?thesis by auto
    qed
  qed
qed

lemma prefix_with_manifest:
  assumes "prefix p (cell_events sw cw 0 cs @ manifest_events h cs sw)"
      and "Created ''manifest.json'' \<in> set p \<or> (\<exists>c. Written ''manifest.json'' c \<in> set p)"
  shows "set (cell_events sw cw 0 cs) \<subseteq> set p"
proof -
  from assms(1) consider "prefix p (cell_events sw cw 0 cs)"
    | us where "p = cell_events sw cw 0 cs @ us"
    by (auto simp: prefix_append)
  then show ?thesis
  proof cases
    case 1
    then have "set p \<subseteq> set (cell_events sw cw 0 cs)" by (rule set_mono_prefix)
    with assms(2) have "Created ''manifest.json'' \<in> set (cell_events sw cw 0 cs)
        \<or> (\<exists>c. Written ''manifest.json'' c \<in> set (cell_events sw cw 0 cs))" by blast
    then have False
      using cellFileName_not_manifest[symmetric] by (auto dest!: cell_events_names)
    then show ?thesis ..
  next
    case 2
    then show ?thesis by simp
  qed
qed

text \<open>
  Claim C8. Whatever the save is given and wherever a call on the directory throws, a
  prefix of the sequence of its effects that holds the manifest (created or written)
  holds the written document of every cell; and a save that succeeds has had exactly
  the effects of the cells in order followed by the creation and the writing of the
  manifest, which is last.
\<close>
theorem saveProject_documents_before_manifest:
  assumes "saveProject h pick f cs sw cw = (res, evs)"
  shows "(\<forall>p. prefix p evs \<and>
            (Created ''manifest.json'' \<in> set p \<or> (\<exists>c. Written ''manifest.json'' c \<in> set p)) \<longrightarrow>
            (\<forall>i<length cs. Written (cellFileName i) (cellDocument sw cw (cs ! i)) \<in> set p))
       \<and> (success res \<longrightarrow>
            evs = cell_events sw cw 0 cs
                  @ [Created ''manifest.json'',
                     Written ''manifest.json'' (JSON_stringify h (createManifest cs sw))])"
proof (intro conjI allI impI)
  fix p i
  assume p: "prefix p evs \<and>
     (Created ''manifest.json'' \<in> set p \<or> (\<exists>c. Written ''manifest.json'' c \<in> set p))"
     and i: "i < length cs"
  from saveProject_log[OF assms] p
  have "prefix p (cell_events sw cw 0 cs @ manifest_events h cs sw)"
    using prefix_order.trans by blast
  from prefix_with_manifest[OF this] p
  have "set (cell_events sw cw 0 cs) \<subseteq> set p" by blast
  with cell_events_nth[OF i, of 0 sw cw]
  show "Written (cellFileName i) (cellDocument sw cw (cs ! i)) \<in> set p" by auto
next
  assume "success res"
  with saveProject_log[OF assms]
  show "evs = cell_events sw cw 0 cs
                  @ [Created ''manifest.json'',
                     Written ''manifest.json'' (JSON_stringify h (createManifest cs sw))]"
    by (simp add: manifest_events_def)
qed

section \<open>Loading\<close>

lemma manifest_cells_eq:
  "manifest_cells h dir k infos =
     map (\<lambda>(j, e). cell_from dir (new_id h j) e) (enumerate k (filter (readable dir) infos))"
  by (induction infos arbitrary: k)
     (auto simp: readable_def cell_from_def Let_def split: option.splits)

lemma manifest_cells_length:
  "length (manifest_cells h dir k infos) = length (filter (readable dir) infos)"
  by (simp add: manifest_cells_eq)

lemma manifest_cells_nth:
  "i < length (filter (readable dir) infos) \<Longrightarrow>
   manifest_cells h dir k infos ! i = cell_from dir (new_id h (k + i)) (filter (readable dir) infos ! i)"
  by (simp add: manifest_cells_eq nth_enumerate_eq)

lemma read_file_read_member:
  "read_file dir name = (case read_member dir name of Some (Inr body) \<Rightarrow> Some body | _ \<Rightarrow> None)"
  by (simp add: read_file_def read_member_def split: option.splits member.splits)

lemma read_member_text: "read_file dir name = Some body \<Longrightarrow> read_member dir name = Some (Inr body)"
  by (simp add: read_file_def read_member_def split: option.splits member.splits)

text \<open>When no listed document is a member whose read throws, the two loops agree.\<close>

lemma zip_manifest_cells_unbroken:
  "\<forall>e\<in>set infos. \<forall>x. read_member dir (e_file e) \<noteq> Some (Inl x) \<Longrightarrow>
     zip_manifest_cells h dir k infos = Inr (manifest_cells h dir k infos)"
  by (induction infos arbitrary: k)
     (auto simp: read_file_read_member Let_def split: option.splits sum.splits)

lemma loadProject_manifest:
  assumes "hasFileSystemAccess h" "read_file dir ''manifest.json'' = Some text"
      "JSON_parse h text = Inr (Some m)" "m_cells m = Some infos"
  shows "loadProject h (Granted dir) =
     (if manifest_cells h dir 0 infos = [] then load_failure ''No cells found in project''
      else load_success (manifest_cells h dir 0 infos) (Some m))"
  using assms by (simp add: loadProject_def)

lemma importProjectFromZip_manifest:
  assumes "read_file dir ''manifest.json'' = Some text"
      "JSON_parse h text = Inr (Some m)" "m_cells m = Some infos"
      "\<forall>e\<in>set infos. \<forall>x. read_member dir (e_file e) \<noteq> Some (Inl x)"
  shows "importProjectFromZip h (Inr dir) =
     (if manifest_cells h dir 0 infos = [] then load_failure ''No cells found in ZIP''
      else load_success (manifest_cells h dir 0 infos) (Some m))"
  using assms(2,3) read_member_text[OF assms(1)] zip_manifest_cells_unbroken[OF assms(4)]
  by (simp add: importProjectFromZip_def)

lemma load_success_sel [simp]:
  "success (load_success cs mf)" "notebook (load_success cs mf) = Some \<lparr>nb_version = 1, nb_cells = cs\<rparr>"
  by (simp_all add: load_success_def)

lemma load_failure_sel [simp]:
  "\<not> success (load_failure msg)" "notebook (load_failure msg) = None"
  by (simp_all add: load_failure_def)

lemma load_caught_sel [simp]:
  "\<not> success (load_caught e)" "notebook (load_caught e) = None"
  by (simp_all add: load_caught_def)

lemma cell_from_sel [simp]:
  "cell_recognizedCode (cell_from dir i e) = e_recognizedCode e"
  "cell_strokes (cell_from dir i e) = strokes_of (svgToStrokes (the (read_file dir (e_file e))))"
  "cell_height (cell_from dir i e) =
     Some (case e_height e of Some v \<Rightarrow> v
           | None \<Rightarrow> height_of (svgToStrokes (the (read_file dir (e_file e)))))"
  by (simp_all add: cell_from_def loaded_cell_def Let_def nullish_def)


text \<open>
  Claim C10. A cell loaded through the manifest, by either adapter, has the height of
  its manifest entry when the entry defines one, and the height read from its document
  otherwise.
\<close>
theorem manifest_height_precedence:
  assumes "read_file dir ''manifest.json'' = Some text"
      and "JSON_parse h text = Inr (Some m)"
      and "m_cells m = Some infos"
      and "found = filter (\<lambda>e. read_file dir (e_file e) \<noteq> None) infos"
      and "found \<noteq> []"
      and "r = loadProject h (Granted dir) \<and> hasFileSystemAccess h \<or>
           r = importProjectFromZip h (Inr dir) \<and>
             (\<forall>e\<in>set infos. \<forall>x. read_member dir (e_file e) \<noteq> Some (Inl x))"
  shows "\<exists>cs. notebook r = Some \<lparr>nb_version = 1, nb_cells = cs\<rparr> \<and>
        length cs = length found \<and>
        (\<forall>i<length found.
           cell_height (cs ! i) =
             Some (case e_height (found ! i) of
                     Some v \<Rightarrow> v
                   | None \<Rightarrow> height_of (svgToStrokes (the (read_file dir (e_file (found ! i)))))))"
proof -
  have f: "found = filter (readable dir) infos"
    using assms(4) by (simp add: readable_def[abs_def])
  let ?cs = "manifest_cells h dir 0 infos"
  have len: "length ?cs = length found" by (simp add: manifest_cells_length f)
  with assms(5) have ne: "?cs \<noteq> []" by auto
  have r: "notebook r = Some \<lparr>nb_version = 1, nb_cells = ?cs\<rparr>"
    using assms(6) ne
      loadProject_manifest[OF _ assms(1-3)] importProjectFromZip_manifest[OF assms(1-3)]
    by auto
  have "\<forall>i<length found. cell_height (?cs ! i) =
             Some (case e_height (found ! i) of
                     Some v \<Rightarrow> v
                   | None \<Rightarrow> height_of (svgToStrokes (the (read_file dir (e_file (found ! i))))))"
    unfolding f by (simp add: manifest_cells_nth)
  with r len show ?thesis by blast
qed

lemma sample_host_sel [simp]:
  "JSON_parse (sample_host h) = sample_parse" "hasFileSystemAccess (sample_host h)"
  "new_id (sample_host h) = new_id h" "localeCompare (sample_host h) = localeCompare h"
  "JSON_stringify (sample_host h) = JSON_stringify h"
  by (simp_all add: sample_host_def)

lemma sample_read:
  "read_file sample_project ''manifest.json'' = Some sample_manifest_text"
  "read_file sample_project ''a.svg'' = Some sample_a"
  "read_file sample_project ''b.svg'' = Some sample_b"
  "read_file sample_project ''missing.svg'' = None"
  by (simp_all add: read_file_def sample_project_def)

lemma sample_unbroken:
  "\<forall>e\<in>set (the (m_cells sample_manifest)). \<forall>x.
     read_member sample_project (e_file e) \<noteq> Some (Inl x)"
  by (simp add: sample_manifest_def read_member_def sample_project_def)

lemma sample_parse_manifest: "sample_parse sample_manifest_text = Inr (Some sample_manifest)"
  by (simp add: sample_parse_def)

lemma sample_found:
  "filter (\<lambda>e. read_file sample_project (e_file e) \<noteq> None) (the (m_cells sample_manifest))
    = [\<lparr>e_file = ''b.svg'', e_height = Some (Val 100), e_recognizedCode = Some ''x = 1''\<rparr>,
       \<lparr>e_file = ''a.svg'', e_height = None, e_recognizedCode = Some ''print(x)''\<rparr>]"
  by (simp add: sample_manifest_def sample_read)

lemma sample_b_height: "height_of (svgToStrokes sample_b) = Val 200"
  by (simp add: svgToStrokes_def parseFromString_def sample_b_def is_space_def
        svgToStrokes_doc_def querySelector_def dimensions_def getAttribute_def present_def
        split_ws_def parseFloat_def is_digit_def nat_of_digits_def digit_val_def
        exponent_part_def or_else_def)

lemma sample_a_height: "height_of (svgToStrokes sample_a) = Val 320"
  by (simp add: svgToStrokes_def parseFromString_def sample_a_def is_space_def
        svgToStrokes_doc_def querySelector_def dimensions_def getAttribute_def present_def
        split_ws_def parseFloat_def is_digit_def nat_of_digits_def digit_val_def
        exponent_part_def or_else_def)


theorem manifest_height_precedence_witness:
  "\<forall>h. \<exists>cs. notebook (importProjectFromZip (sample_host h) (Inr sample_project))
             = Some \<lparr>nb_version = 1, nb_cells = cs\<rparr> \<and>
           length cs = 2 \<and>
           cell_height (cs ! 0) = Some (Val 100) \<and>
           height_of (svgToStrokes sample_b) = Val 200 \<and>
           cell_height (cs ! 1) = Some (Val 320)"
proof
  fix h
  have cells: "m_cells sample_manifest = Some (the (m_cells sample_manifest))"
    by (simp add: sample_manifest_def)
  have parse: "JSON_parse (sample_host h) sample_manifest_text = Inr (Some sample_manifest)"
    by (simp add: sample_parse_manifest)
  from manifest_height_precedence[OF sample_read(1) parse cells
      sample_found[symmetric] _ disjI2[OF conjI[OF refl sample_unbroken]]]
  show "\<exists>cs. notebook (importProjectFromZip (sample_host h) (Inr sample_project))
             = Some \<lparr>nb_version = 1, nb_cells = cs\<rparr> \<and>
           length cs = 2 \<and>
           cell_height (cs ! 0) = Some (Val 100) \<and>
           height_of (svgToStrokes sample_b) = Val 200 \<and>
           cell_height (cs ! 1) = Some (Val 320)"
    by (auto simp: sample_read sample_a_height sample_b_height)
qed

text \<open>
  Claim C6, at an input where the adapters part: on a project whose manifest is not JSON,
  with one document, loadProject falls back to the scan and returns the cell, and
  importProjectFromZip fails with the message of the parser's error.
\<close>
theorem import_aborts_on_unparseable_manifest:
  "\<forall>h. success (loadProject (sample_host h) (Granted broken_project)) \<and>
       (\<exists>c. notebook (loadProject (sample_host h) (Granted broken_project))
               = Some \<lparr>nb_version = 1, nb_cells = [c]\<rparr>) \<and>
       importProjectFromZip (sample_host h) (Inr broken_project)
         = load_failure ''Unexpected end of JSON input''"
  by (simp add: loadProject_def importProjectFromZip_def broken_project_def read_file_def
        read_member_def
        sample_parse_def sample_manifest_text_def svg_files_def List.map_filter_simps
        endsWith_def sort_by_def Let_def message_or_def load_success_def)

text \<open>
  Claim C5, at an input where the adapters part: the manifest lists three documents, of
  which one is missing, one is there and cannot be read, and one is readable. loadProject
  skips the two and returns the project with the one cell of the third document.
  importProjectFromZip skips the missing one, but the read of the second throws with no
  \<^verbatim>\<open>try\<close> around it, and the import fails with the message of what was thrown. With
  that member taken out of the archive the import returns the same one cell.
\<close>
theorem import_aborts_on_unreadable_document:
  "\<forall>h. loadProject (sample_host h) (Granted damaged_project)
         = load_success
             [loaded_cell (new_id h 0) (strokes_of (svgToStrokes sample_a)) (Val 320)
                (Some ''print(x)'')]
             (Some sample_manifest)
     \<and> importProjectFromZip (sample_host h) (Inr damaged_project)
         = load_failure ''invalid stored block lengths''
     \<and> importProjectFromZip (sample_host h)
           (Inr [(''a.svg'', FileEntry sample_a),
                 (''manifest.json'', FileEntry sample_manifest_text)])
         = load_success
             [loaded_cell (new_id h 0) (strokes_of (svgToStrokes sample_a)) (Val 320)
                (Some ''print(x)'')]
             (Some sample_manifest)"
  by (simp add: loadProject_def importProjectFromZip_def damaged_project_def read_file_def
        read_member_def sample_parse_manifest sample_manifest_def Let_def message_or_def
        nullish_def sample_a_height)

text \<open>A load that succeeds, by either adapter and on any input, has at least one cell.\<close>

lemma loadProject_success_nonempty:
  "success (loadProject h pick) \<Longrightarrow> \<exists>nb. notebook (loadProject h pick) = Some nb \<and> nb_cells nb \<noteq> []"
  by (auto simp: loadProject_def Let_def split: if_splits picked.splits sum.splits)

lemma importProjectFromZip_success_nonempty:
  "success (importProjectFromZip h file) \<Longrightarrow>
     \<exists>nb. notebook (importProjectFromZip h file) = Some nb \<and> nb_cells nb \<noteq> []"
  by (auto simp: importProjectFromZip_def Let_def split: if_splits sum.splits)

section \<open>The manifest of a save\<close>

lemma write_cells_no_fault:
  "write_cells (\<lambda>k. None) sw cw i cs evs = (evs @ cell_events sw cw i cs, None)"
  by (induction cs arbitrary: i evs) (simp_all add: write_file_def)

lemma saveProject_no_fault:
  "hasFileSystemAccess h \<Longrightarrow>
   saveProject h (Granted dir) (\<lambda>k. None) cs sw cw =
     (\<lparr>success = True, error = None\<rparr>,
      cell_events sw cw 0 cs
      @ [Created ''manifest.json'',
         Written ''manifest.json'' (JSON_stringify h (createManifest cs sw))])"
  by (simp add: saveProject_def write_cells_no_fault write_file_def)

lemma read_file_update [simp]:
  "read_file (AList.update name (FileEntry body) archive) name = Some body"
  by (simp add: read_file_def update_conv')

lemma padStart_length3: "n < 1000 \<Longrightarrow> length (padStart 3 (CHR ''0'') (string_of_nat n)) = 3"
  using string_of_nat_length3[of n] by (simp add: padStart_def)

lemma cell_names:
  "padStart 3 (CHR ''0'') (string_of_nat (Suc 0)) = ''001''"
  "padStart 3 (CHR ''0'') (string_of_nat (Suc (Suc 0))) = ''002''"
  "cellFileName 0 = ''cell-001.svg''"
  "cellFileName (Suc 0) = ''cell-002.svg''"
  by code_simp+

text \<open>
  Claim C7. The manifest of a cell list has one entry for each cell, in the order of the
  cells; the file of entry \<open>i\<close> is \<^verbatim>\<open>cell-\<close>, \<open>i + 1\<close> padded with zeros to three
  digits, \<^verbatim>\<open>.svg\<close>, and its height and recognizedCode are those of cell \<open>i\<close>. It is
  this manifest that a save writes last into the directory and that an export stores in
  the archive.
\<close>
theorem createManifest_entries:
  "(\<exists>es. m_cells (createManifest cs sw) = Some es \<and> length es = length cs \<and>
      (\<forall>i<length cs.
          es ! i = \<lparr>e_file = ''cell-'' @ padStart 3 (CHR ''0'') (string_of_nat (i + 1)) @ ''.svg'',
                    e_height = cell_height (cs ! i),
                    e_recognizedCode = cell_recognizedCode (cs ! i)\<rparr> \<and>
          (i + 1 < 1000 \<longrightarrow> length (padStart 3 (CHR ''0'') (string_of_nat (i + 1))) = 3)))
   \<and> (hasFileSystemAccess h \<longrightarrow>
        success (fst (saveProject h (Granted dir) (\<lambda>k. None) cs sw cw)) \<and>
        last (snd (saveProject h (Granted dir) (\<lambda>k. None) cs sw cw))
          = Written ''manifest.json'' (JSON_stringify h (createManifest cs sw)))
   \<and> (\<exists>archive. exportProjectAsZip h None cs sw cw
                    = (\<lparr>success = True, error = None\<rparr>, Some archive) \<and>
         read_file archive ''manifest.json''
           = Some (JSON_stringify h (createManifest cs sw)))"
proof (intro conjI impI)
  show "\<exists>es. m_cells (createManifest cs sw) = Some es \<and> length es = length cs \<and>
      (\<forall>i<length cs.
          es ! i = \<lparr>e_file = ''cell-'' @ padStart 3 (CHR ''0'') (string_of_nat (i + 1)) @ ''.svg'',
                    e_height = cell_height (cs ! i),
                    e_recognizedCode = cell_recognizedCode (cs ! i)\<rparr> \<and>
          (i + 1 < 1000 \<longrightarrow> length (padStart 3 (CHR ''0'') (string_of_nat (i + 1))) = 3))"
    by (simp add: createManifest_def nth_enumerate_eq cellFileName_def padStart_length3)
next
  assume h: "hasFileSystemAccess h"
  show "success (fst (saveProject h (Granted dir) (\<lambda>k. None) cs sw cw))"
    by (simp add: saveProject_no_fault[OF h])
  show "last (snd (saveProject h (Granted dir) (\<lambda>k. None) cs sw cw))
          = Written ''manifest.json'' (JSON_stringify h (createManifest cs sw))"
    by (simp add: saveProject_no_fault[OF h])
next
  show "\<exists>archive. exportProjectAsZip h None cs sw cw
                    = (\<lparr>success = True, error = None\<rparr>, Some archive) \<and>
         read_file archive ''manifest.json''
           = Some (JSON_stringify h (createManifest cs sw))"
    by (simp add: exportProjectAsZip_def)
qed

theorem createManifest_entries_witness:
  "\<forall>h. m_cells (createManifest
            [sample_cell (Some ''x = 1'') (Some (Val 100)), sample_cell None None] (Val 4))
       = Some [\<lparr>e_file = ''cell-001.svg'', e_height = Some (Val 100),
                 e_recognizedCode = Some ''x = 1''\<rparr>,
               \<lparr>e_file = ''cell-002.svg'', e_height = None, e_recognizedCode = None\<rparr>]
     \<and> last (snd (saveProject (sample_host h) (Granted []) (\<lambda>k. None)
            [sample_cell (Some ''x = 1'') (Some (Val 100)), sample_cell None None]
            (Val 4) (Val 800)))
        = Written ''manifest.json'' (JSON_stringify h (createManifest
            [sample_cell (Some ''x = 1'') (Some (Val 100)), sample_cell None None] (Val 4)))"
proof
  fix h
  let ?cs = "[sample_cell (Some ''x = 1'') (Some (Val 100)), sample_cell None None]"
  from createManifest_entries[of ?cs "Val 4" "sample_host h" "[]" "Val 800"]
  obtain es where es: "m_cells (createManifest ?cs (Val 4)) = Some es" "length es = 2"
    "\<forall>i<2. es ! i = \<lparr>e_file = ''cell-'' @ padStart 3 (CHR ''0'') (string_of_nat (i + 1)) @ ''.svg'',
                    e_height = cell_height (?cs ! i),
                    e_recognizedCode = cell_recognizedCode (?cs ! i)\<rparr>"
    and l: "last (snd (saveProject (sample_host h) (Granted []) (\<lambda>k. None) ?cs (Val 4) (Val 800)))
        = Written ''manifest.json'' (JSON_stringify h (createManifest ?cs (Val 4)))"
    by auto
  from es(3)[rule_format, of 0] es(3)[rule_format, of "Suc 0"]
  have "es ! 0 = \<lparr>e_file = ''cell-001.svg'', e_height = Some (Val 100),
                 e_recognizedCode = Some ''x = 1''\<rparr>"
    "es ! 1 = \<lparr>e_file = ''cell-002.svg'', e_height = None, e_recognizedCode = None\<rparr>"
    by (simp_all add: sample_cell_def cell_names)
  with es(2) have "es = [\<lparr>e_file = ''cell-001.svg'', e_height = Some (Val 100),
                 e_recognizedCode = Some ''x = 1''\<rparr>,
               \<lparr>e_file = ''cell-002.svg'', e_height = None, e_recognizedCode = None\<rparr>]"
    by (cases es; cases "tl es") auto
  with es(1) l show "m_cells (createManifest ?cs (Val 4))
       = Some [\<lparr>e_file = ''cell-001.svg'', e_height = Some (Val 100),
                 e_recognizedCode = Some ''x = 1''\<rparr>,
               \<lparr>e_file = ''cell-002.svg'', e_height = None, e_recognizedCode = None\<rparr>]
     \<and> last (snd (saveProject (sample_host h) (Granted []) (\<lambda>k. None) ?cs (Val 4) (Val 800)))
        = Written ''manifest.json'' (JSON_stringify h (createManifest ?cs (Val 4)))"
    by simp
qed

theorem saveProject_documents_before_manifest_witness:
  "\<forall>h. snd (saveProject (sample_host h) (Granted []) (\<lambda>k. if k = 3 then Some (OtherValue ''disk full'') else None)
            [sample_cell None None, sample_cell None None] (Val 4) (Val 800))
       = [Created ''cell-001.svg'',
          Written ''cell-001.svg'' (cellDocument (Val 4) (Val 800) (sample_cell None None)),
          Created ''cell-002.svg'']
     \<and> snd (saveProject (sample_host h) (Granted []) (\<lambda>k. None)
            [sample_cell None None] (Val 4) (Val 800))
       = [Created ''cell-001.svg'',
          Written ''cell-001.svg'' (cellDocument (Val 4) (Val 800) (sample_cell None None)),
          Created ''manifest.json'',
          Written ''manifest.json''
            (JSON_stringify h (createManifest [sample_cell None None] (Val 4)))]"
proof
  fix h
  let ?c = "sample_cell None None"
  let ?run = "saveProject (sample_host h) (Granted []) (\<lambda>k. None) [?c] (Val 4) (Val 800)"
  have ok: "success (fst ?run)"
    by (simp add: saveProject_def write_file_def)
  note name = cell_names(3)
  from saveProject_documents_before_manifest[OF prod.collapse[symmetric], of
      "sample_host h" "Granted []" "\<lambda>k. None" "[?c]" "Val 4" "Val 800"] ok
  have "snd ?run = cell_events (Val 4) (Val 800) 0 [?c]
                  @ [Created ''manifest.json'',
                     Written ''manifest.json''
                       (JSON_stringify (sample_host h) (createManifest [?c] (Val 4)))]"
    by blast
  then have second: "snd ?run = [Created ''cell-001.svg'',
          Written ''cell-001.svg'' (cellDocument (Val 4) (Val 800) ?c),
          Created ''manifest.json'',
          Written ''manifest.json'' (JSON_stringify h (createManifest [?c] (Val 4)))]"
    by (simp add: name)
  have first: "snd (saveProject (sample_host h) (Granted [])
            (\<lambda>k. if k = 3 then Some (OtherValue ''disk full'') else None) [?c, ?c] (Val 4) (Val 800))
       = [Created ''cell-001.svg'',
          Written ''cell-001.svg'' (cellDocument (Val 4) (Val 800) ?c),
          Created ''cell-002.svg'']"
    by (simp add: saveProject_def write_file_def cell_names)
  from first second show "snd (saveProject (sample_host h) (Granted [])
            (\<lambda>k. if k = 3 then Some (OtherValue ''disk full'') else None) [?c, ?c] (Val 4) (Val 800))
       = [Created ''cell-001.svg'',
          Written ''cell-001.svg'' (cellDocument (Val 4) (Val 800) ?c),
          Created ''cell-002.svg'']
     \<and> snd ?run = [Created ''cell-001.svg'',
          Written ''cell-001.svg'' (cellDocument (Val 4) (Val 800) ?c),
          Created ''manifest.json'',
          Written ''manifest.json'' (JSON_stringify h (createManifest [?c] (Val 4)))]"
    by simp
qed

section \<open>The dimensions of a decoded document\<close>

lemma truthy_or_else: "truthy d \<Longrightarrow> truthy (or_else a d)"
  by (simp add: or_else_def)

lemma or_else_cases: "or_else a d = a \<and> truthy a \<or> or_else a d = d \<and> \<not> truthy a"
  by (simp add: or_else_def)

lemma dimensions_truthy: "truthy (fst (dimensions svg)) \<and> truthy (snd (dimensions svg))"
  by (auto simp: dimensions_def Let_def truthy_or_else split: option.splits)

lemma dimensions_viewBox:
  assumes "getAttribute el ''viewBox'' = Some vb" "vb \<noteq> []"
  shows "dimensions (Some el) =
     (if 4 \<le> length (split_ws vb)
      then (or_else (parseFloat (split_ws vb ! 2)) (Val 800),
            or_else (parseFloat (split_ws vb ! 3)) (Val 320))
      else (Val 800, Val 320))"
  using assms by (simp add: dimensions_def present_def Let_def)

lemma dimensions_no_viewBox:
  assumes "getAttribute el ''viewBox'' = None \<or> getAttribute el ''viewBox'' = Some []"
  shows "dimensions (Some el) =
     ((case getAttribute el ''width'' of
         None \<Rightarrow> Val 800
       | Some w \<Rightarrow> if w = [] then Val 800 else or_else (parseFloat w) (Val 800)),
      (case getAttribute el ''height'' of
         None \<Rightarrow> Val 320
       | Some h \<Rightarrow> if h = [] then Val 320 else or_else (parseFloat h) (Val 320)))"
  using assms by (auto simp: dimensions_def present_def Let_def split: option.splits)

text \<open>
  Claim C9, as the code has it. The decoded width and height are never NaN or 0. With no
  svg element they are 800 and 320. When the svg element has a viewBox attribute that is
  not empty, they come from the viewBox alone: from its third and fourth field when it
  has four or more, each replaced by its default when it is NaN or 0, and the defaults
  when it has fewer. The width and height attributes are read only when the viewBox is
  missing or empty, each with its own default. So beside a viewBox that is not empty the
  width and height attributes count for nothing: when that viewBox has fewer than four
  fields, or a third and a fourth field that both parse to NaN or 0, the result is 800
  and 320.
\<close>

theorem svgToStrokes_dimensions:
  "truthy (width_of (svgToStrokes_doc doc)) \<and> truthy (height_of (svgToStrokes_doc doc))
   \<and> (querySelector doc ''svg'' = None \<longrightarrow>
        width_of (svgToStrokes_doc doc) = Val 800 \<and> height_of (svgToStrokes_doc doc) = Val 320)
   \<and> (querySelector doc ''svg'' = Some el \<and> getAttribute el ''viewBox'' = Some vb \<and> vb \<noteq> [] \<and>
      4 \<le> length (split_ws vb) \<longrightarrow>
        width_of (svgToStrokes_doc doc) = or_else (parseFloat (split_ws vb ! 2)) (Val 800) \<and>
        height_of (svgToStrokes_doc doc) = or_else (parseFloat (split_ws vb ! 3)) (Val 320))
   \<and> (querySelector doc ''svg'' = Some el \<and> getAttribute el ''viewBox'' = Some vb \<and> vb \<noteq> [] \<and>
      length (split_ws vb) < 4 \<longrightarrow>
        width_of (svgToStrokes_doc doc) = Val 800 \<and> height_of (svgToStrokes_doc doc) = Val 320)
   \<and> (querySelector doc ''svg'' = Some el \<and>
      (getAttribute el ''viewBox'' = None \<or> getAttribute el ''viewBox'' = Some []) \<longrightarrow>
        width_of (svgToStrokes_doc doc) =
          (case getAttribute el ''width'' of
             None \<Rightarrow> Val 800
           | Some w \<Rightarrow> if w = [] then Val 800 else or_else (parseFloat w) (Val 800)) \<and>
        height_of (svgToStrokes_doc doc) =
          (case getAttribute el ''height'' of
             None \<Rightarrow> Val 320
           | Some h \<Rightarrow> if h = [] then Val 320 else or_else (parseFloat h) (Val 320)))
   \<and> (querySelector doc ''svg'' = Some el \<and> getAttribute el ''viewBox'' = Some vb \<and> vb \<noteq> [] \<and>
      (length (split_ws vb) < 4 \<or>
       \<not> truthy (parseFloat (split_ws vb ! 2)) \<and> \<not> truthy (parseFloat (split_ws vb ! 3))) \<longrightarrow>
        width_of (svgToStrokes_doc doc) = Val 800 \<and> height_of (svgToStrokes_doc doc) = Val 320)"
proof -
  have w: "width_of (svgToStrokes_doc doc) = fst (dimensions (querySelector doc ''svg''))"
    and h: "height_of (svgToStrokes_doc doc) = snd (dimensions (querySelector doc ''svg''))"
    by (simp_all add: svgToStrokes_doc_def split_beta)
  show ?thesis
    unfolding w h
    using dimensions_truthy[of "querySelector doc ''svg''"]
    by (auto simp: dimensions_viewBox dimensions_no_viewBox or_else_def)
       (simp_all add: dimensions_def)
qed

lemmas eval_svg = svgToStrokes_def parseFromString_def is_space_def
        svgToStrokes_doc_def querySelector_def querySelectorAll_def pathStrokes_def
        dimensions_def getAttribute_def present_def
        split_ws_def parseFloat_def is_digit_def nat_of_digits_def digit_val_def
        exponent_part_def or_else_def

text \<open>
  Claim C9 as stated fails: a viewBox that does not parse, beside width and height
  attributes that do, yields 800 and 320, not the values of the attributes.
\<close>

theorem viewBox_unparseable_counterexample:
  "svgToStrokes ''<svg viewBox=\"garbage\" width=\"500\" height=\"200\"></svg>''
     = \<lparr>strokes_of = [], width_of = Val 800, height_of = Val 320\<rparr>
   \<and> parseFloat ''500'' = Val 500 \<and> parseFloat ''200'' = Val 200
   \<and> parseFloat ''garbage'' = NaN"
  by (simp add: eval_svg)

text \<open>
  A viewBox with leading white space (its fields shift by one), an empty viewBox, a
  viewBox of three fields, a document with no svg element, a viewBox whose third field
  alone does not parse, and one whose third field is 0 and whose fourth does not parse.
\<close>

theorem svgToStrokes_dimensions_witness:
  "svgToStrokes ''<svg viewBox=\" 0 0 640 0\" width=\"500\"></svg>''
     = \<lparr>strokes_of = [], width_of = Val 800, height_of = Val 640\<rparr>
   \<and> svgToStrokes ''<svg viewBox=\"\" width=\"500px\" height=\"abc\"></svg>''
     = \<lparr>strokes_of = [], width_of = Val 500, height_of = Val 320\<rparr>
   \<and> svgToStrokes ''<svg viewBox=\"0 0 640\" width=\"500\" height=\"200\"></svg>''
     = \<lparr>strokes_of = [], width_of = Val 800, height_of = Val 320\<rparr>
   \<and> svgToStrokes ''<p>no drawing</p>''
     = \<lparr>strokes_of = [], width_of = Val 800, height_of = Val 320\<rparr>
   \<and> svgToStrokes ''<svg viewBox=\"a b c 200\" width=\"500\" height=\"100\"></svg>''
     = \<lparr>strokes_of = [], width_of = Val 800, height_of = Val 200\<rparr>
   \<and> svgToStrokes ''<svg viewBox=\"0 0 0 x\" width=\"500\" height=\"200\"></svg>''
     = \<lparr>strokes_of = [], width_of = Val 800, height_of = Val 320\<rparr>"
proof -
  let ?d1 = "parseFromString ''<svg viewBox=\" 0 0 640 0\" width=\"500\"></svg>''"
  let ?d2 = "parseFromString ''<svg viewBox=\"\" width=\"500px\" height=\"abc\"></svg>''"
  let ?d3 = "parseFromString ''<svg viewBox=\"0 0 640\" width=\"500\" height=\"200\"></svg>''"
  let ?d4 = "parseFromString ''<p>no drawing</p>''"
  let ?d5 = "parseFromString ''<svg viewBox=\"a b c 200\" width=\"500\" height=\"100\"></svg>''"
  let ?d6 = "parseFromString ''<svg viewBox=\"0 0 0 x\" width=\"500\" height=\"200\"></svg>''"
  have d1: "?d1 = [Element ''svg'' [(''viewBox'', '' 0 0 640 0''), (''width'', ''500'')]]"
    and d2: "?d2 = [Element ''svg'' [(''viewBox'', []), (''width'', ''500px''), (''height'', ''abc'')]]"
    and d3: "?d3 = [Element ''svg'' [(''viewBox'', ''0 0 640''), (''width'', ''500''), (''height'', ''200'')]]"
    and d4: "?d4 = [Element ''p'' []]"
    and d5: "?d5 = [Element ''svg'' [(''viewBox'', ''a b c 200''), (''width'', ''500''), (''height'', ''100'')]]"
    and d6: "?d6 = [Element ''svg'' [(''viewBox'', ''0 0 0 x''), (''width'', ''500''), (''height'', ''200'')]]"
    by (simp_all add: parseFromString_def is_space_def)
  have s1: "strokes_of (svgToStrokes_doc ?d1) = []" and s2: "strokes_of (svgToStrokes_doc ?d2) = []"
    and s3: "strokes_of (svgToStrokes_doc ?d3) = []" and s4: "strokes_of (svgToStrokes_doc ?d4) = []"
    and s5: "strokes_of (svgToStrokes_doc ?d5) = []" and s6: "strokes_of (svgToStrokes_doc ?d6) = []"
    unfolding d1 d2 d3 d4 d5 d6
    by (simp_all add: svgToStrokes_doc_def querySelectorAll_def pathStrokes_def split_beta)
  have f1: "split_ws '' 0 0 640 0'' = [[], ''0'', ''0'', ''640'', ''0'']"
    and f3: "split_ws ''0 0 640'' = [''0'', ''0'', ''640'']"
    and f5: "split_ws ''a b c 200'' = [''a'', ''b'', ''c'', ''200'']"
    and f6: "split_ws ''0 0 0 x'' = [''0'', ''0'', ''0'', ''x'']"
    by (simp_all add: split_ws_def is_space_def)
  have p: "parseFloat ''0'' = Val 0" "parseFloat ''640'' = Val 640" "parseFloat ''500px'' = Val 500"
    "parseFloat ''abc'' = NaN" "parseFloat ''c'' = NaN" "parseFloat ''x'' = NaN"
    "parseFloat ''200'' = Val 200"
    by (simp_all add: eval_svg)
  from svgToStrokes_dimensions[of ?d1 "Element ''svg'' [(''viewBox'', '' 0 0 640 0''), (''width'', ''500'')]" "'' 0 0 640 0''"]
  have r1: "width_of (svgToStrokes_doc ?d1) = Val 800 \<and> height_of (svgToStrokes_doc ?d1) = Val 640"
    by (simp add: d1 querySelector_def getAttribute_def f1 p or_else_def)
  from svgToStrokes_dimensions[of ?d2 "Element ''svg'' [(''viewBox'', []), (''width'', ''500px''), (''height'', ''abc'')]"]
  have r2: "width_of (svgToStrokes_doc ?d2) = Val 500 \<and> height_of (svgToStrokes_doc ?d2) = Val 320"
    by (simp add: d2 querySelector_def getAttribute_def p or_else_def)
  from svgToStrokes_dimensions[of ?d3 "Element ''svg'' [(''viewBox'', ''0 0 640''), (''width'', ''500''), (''height'', ''200'')]" "''0 0 640''"]
  have r3: "width_of (svgToStrokes_doc ?d3) = Val 800 \<and> height_of (svgToStrokes_doc ?d3) = Val 320"
    by (simp add: d3 querySelector_def getAttribute_def f3)
  from svgToStrokes_dimensions[of ?d4]
  have r4: "width_of (svgToStrokes_doc ?d4) = Val 800 \<and> height_of (svgToStrokes_doc ?d4) = Val 320"
    by (simp add: d4 querySelector_def)
  from svgToStrokes_dimensions[of ?d5 "Element ''svg'' [(''viewBox'', ''a b c 200''), (''width'', ''500''), (''height'', ''100'')]" "''a b c 200''"]
  have r5: "width_of (svgToStrokes_doc ?d5) = Val 800 \<and> height_of (svgToStrokes_doc ?d5) = Val 200"
    by (simp add: d5 querySelector_def getAttribute_def f5 p or_else_def)
  from svgToStrokes_dimensions[of ?d6 "Element ''svg'' [(''viewBox'', ''0 0 0 x''), (''width'', ''500''), (''height'', ''200'')]" "''0 0 0 x''"]
  have r6: "width_of (svgToStrokes_doc ?d6) = Val 800 \<and> height_of (svgToStrokes_doc ?d6) = Val 320"
    by (simp add: d6 querySelector_def getAttribute_def f6 p or_else_def)
  show ?thesis
    using r1 r2 r3 r4 r5 r6 s1 s2 s3 s4 s5 s6 by (simp add: svgToStrokes_def svg_result.equality)
qed

section \<open>The execution bridge: correlation and settlement\<close>

lemma digit_val_digit_char: "d < 10 \<Longrightarrow> digit_val (digit_char d) = d"
  by (simp add: digit_val_def digit_char_def)

lemma is_digit_digit_char: "d < 10 \<Longrightarrow> is_digit (digit_char d)"
  by (simp add: is_digit_def digit_char_def)

lemma nat_of_digits_snoc: "nat_of_digits (ds @ [c]) = 10 * nat_of_digits ds + digit_val c"
  by (simp add: nat_of_digits_def)

lemma nat_of_digits_string_of_nat: "nat_of_digits (string_of_nat n) = n"
proof (induction n rule: string_of_nat.induct)
  case (1 n)
  show ?case
  proof (cases "n < 10")
    case True
    then show ?thesis
      by (subst string_of_nat.simps) (simp add: nat_of_digits_def digit_val_digit_char)
  next
    case False
    with "1.IH" have "nat_of_digits (string_of_nat (n div 10)) = n div 10" by simp
    with False show ?thesis
      by (subst string_of_nat.simps) (simp add: nat_of_digits_snoc digit_val_digit_char)
  qed
qed

lemma string_of_nat_inject: "string_of_nat m = string_of_nat n \<longleftrightarrow> m = n"
  by (metis nat_of_digits_string_of_nat)

text \<open>
  What holds of every state the bridge reaches: the counter is the number of promises; a
  pending entry maps the token \<open>String(p + 1)\<close> to promise \<open>p\<close>, whose resolve function has
  not been called and which is not resolved; no resolve function has been called twice;
  a promise whose resolve function was called holds the values of that call, unless it
  was rejected before; and a pending promise has its entry.
\<close>

definition bridge_inv :: "bridge \<Rightarrow> bool" where
  "bridge_inv b \<longleftrightarrow>
     reqId b = length (promises b) \<and>
     (\<forall>tok p. pending b tok = Some p \<longrightarrow>
        tok = string_of_nat (Suc p) \<and> p < length (promises b) \<and>
        p \<notin> fst ` set (resolve_calls b) \<and>
        (promises b ! p = Pending \<or> (\<exists>e. promises b ! p = Rejected e))) \<and>
     distinct (map fst (resolve_calls b)) \<and>
     (\<forall>p out err. (p, out, err) \<in> set (resolve_calls b) \<longrightarrow>
        p < length (promises b) \<and>
        (promises b ! p = Resolved out err \<or> (\<exists>e. promises b ! p = Rejected e))) \<and>
     (\<forall>p < length (promises b). promises b ! p = Pending \<longrightarrow>
        pending b (string_of_nat (Suc p)) = Some p)"

lemma inv_initial: "bridge_inv initial"
  by (simp add: bridge_inv_def initial_def)

lemma settle_fields [simp]:
  "worker (settle p v b) = worker b" "pending (settle p v b) = pending b"
  "reqId (settle p v b) = reqId b" "resolve_calls (settle p v b) = resolve_calls b"
  "posted (settle p v b) = posted b" "length (promises (settle p v b)) = length (promises b)"
  by (simp_all add: settle_def)

lemma settle_nth:
  "q < length (promises b) \<Longrightarrow>
   promises (settle p v b) ! q = (if q = p \<and> promises b ! p = Pending then v else promises b ! q)"
  by (auto simp: settle_def)

lemma getWorker_fields:
  "getWorker t b = Inr b' \<Longrightarrow>
     pending b' = pending b \<and> reqId b' = reqId b \<and> promises b' = promises b \<and>
     resolve_calls b' = resolve_calls b \<and> posted b' = posted b \<and> worker b'"
  by (auto simp: getWorker_def split: if_splits option.splits)

text \<open>The state after the executor has stored the pending entry.\<close>

definition registered :: "bridge \<Rightarrow> bridge" where
  "registered b =
     b\<lparr>promises := promises b @ [Pending], reqId := reqId b + 1,
       pending := (pending b)(string_of_nat (reqId b + 1) \<mapsto> length (promises b))\<rparr>"

lemma inv_registered: "bridge_inv b \<Longrightarrow> bridge_inv (registered b)"
proof -
  assume inv: "bridge_inv b"
  then have fresh: "\<And>out err. (length (promises b), out, err) \<notin> set (resolve_calls b)"
    "\<And>out err. (reqId b, out, err) \<notin> set (resolve_calls b)"
    unfolding bridge_inv_def by (metis less_irrefl)+
  from inv show ?thesis
    unfolding bridge_inv_def registered_def
    apply (simp add: string_of_nat_inject nth_append)
    apply (intro conjI allI impI)
         apply (auto simp: string_of_nat_inject nth_append less_Suc_eq fresh)
    done
qed

lemma runPython_cases:
  "runPython t code b = (p, b') \<Longrightarrow>
     p = length (promises b) \<and>
     (\<exists>r. (r = registered b \<or> r = (registered b)\<lparr>worker := True\<rparr>) \<and>
        ((\<exists>e. b' = settle p (Rejected e) r \<and> (construct_throws t = Some e \<or> post_throws t = Some e))
         \<or> (b' = r\<lparr>posted := posted b @ [(string_of_nat (reqId b + 1), code)]\<rparr> \<and>
             worker r \<and> post_throws t = None \<and> (worker b \<or> construct_throws t = None))))"
  by (cases "worker b")
     (auto simp: runPython_def registered_def getWorker_def Let_def
      split: if_splits option.splits)

lemma inv_worker_update: "bridge_inv b \<Longrightarrow> bridge_inv (b\<lparr>worker := w\<rparr>)"
  by (simp add: bridge_inv_def)

lemma inv_posted_update: "bridge_inv b \<Longrightarrow> bridge_inv (b\<lparr>posted := ms\<rparr>)"
  by (simp add: bridge_inv_def)

lemma inv_reject:
  assumes "bridge_inv b"
  shows "bridge_inv (settle p (Rejected e) b)"
  using assms unfolding bridge_inv_def
  by (auto simp: settle_nth)

lemma inv_runPython:
  assumes "bridge_inv b" "runPython t code b = (p, b')"
  shows "bridge_inv b'"
proof -
  from runPython_cases[OF assms(2)] inv_registered[OF assms(1)]
  show ?thesis
    by (auto intro: inv_reject inv_worker_update inv_posted_update
        simp del: bridge.update_convs)
qed

lemma onmessage_unknown: "pending b tok = None \<Longrightarrow> onmessage (tok, out, err) b = b"
  by (simp add: onmessage_def)

lemma onmessage_known:
  "pending b tok = Some p \<Longrightarrow>
   onmessage (tok, out, err) b =
     settle p (Resolved out err)
       (b\<lparr>pending := (pending b)(tok := None),
          resolve_calls := resolve_calls b @ [(p, out, err)]\<rparr>)"
  by (simp add: onmessage_def resolve_def)

lemma inv_onmessage:
  assumes inv: "bridge_inv b"
  shows "bridge_inv (onmessage (tok, out, err) b)"
proof (cases "pending b tok")
  case None
  with inv show ?thesis by (simp add: onmessage_unknown)
next
  case (Some p)
  from inv Some have tok: "tok = string_of_nat (Suc p)" and p: "p < length (promises b)"
    and fresh: "p \<notin> fst ` set (resolve_calls b)"
    and st: "promises b ! p = Pending \<or> (\<exists>e. promises b ! p = Rejected e)"
    unfolding bridge_inv_def by blast+
  have others: "\<And>tok' q. pending b tok' = Some q \<Longrightarrow> tok' \<noteq> tok \<Longrightarrow> q \<noteq> p"
    using inv tok unfolding bridge_inv_def by blast
  from fresh have fresh': "\<And>o1 e1. (p, o1, e1) \<notin> set (resolve_calls b)"
    by force
  show ?thesis
    unfolding onmessage_known[OF Some]
    using inv p fresh fresh' st others
    unfolding bridge_inv_def
    apply (simp add: settle_nth)
    apply (intro conjI allI impI)
          apply (auto simp: settle_nth tok string_of_nat_inject)
    done
qed

lemma after_snoc: "after (evs @ [ev]) = bridge_step (after evs) ev"
  by (simp add: after_def)

lemma inv_step: "bridge_inv b \<Longrightarrow> bridge_inv (bridge_step b ev)"
proof (cases ev)
  case (Submit t code)
  assume "bridge_inv b"
  with Submit show ?thesis
    using inv_runPython[of b t code "fst (runPython t code b)" "snd (runPython t code b)"]
    by simp
next
  case (Deliver tok out err)
  assume "bridge_inv b"
  with Deliver show ?thesis by (simp add: inv_onmessage)
qed

lemma inv_after: "bridge_inv (after evs)"
  by (induction evs rule: rev_induct) (simp_all add: after_def inv_initial inv_step)

lemma runPython_fst: "fst (runPython t code b) = length (promises b)"
  by (simp add: runPython_def Let_def split: sum.splits option.splits)

lemma runPython_pending:
  "pending (snd (runPython t code b)) (string_of_nat (Suc (reqId b))) = Some (length (promises b))"
  by (auto simp: runPython_def Let_def getWorker_def split: sum.splits option.splits if_splits)

lemma runPython_promises_old:
  "q < length (promises b) \<Longrightarrow> promises (snd (runPython t code b)) ! q = promises b ! q"
  by (auto simp: runPython_def Let_def getWorker_def settle_nth nth_append
      split: sum.splits option.splits if_splits)

lemma runPython_length:
  "length (promises (snd (runPython t code b))) = Suc (length (promises b))"
  by (auto simp: runPython_def Let_def getWorker_def split: sum.splits option.splits if_splits)

lemma runPython_new:
  "promises (snd (runPython t code b)) ! length (promises b) =
     (if \<not> worker b \<and> construct_throws t \<noteq> None then Rejected (the (construct_throws t))
      else if post_throws t \<noteq> None then Rejected (the (post_throws t))
      else Pending)"
  by (auto simp: runPython_def Let_def getWorker_def settle_nth nth_append
      split: sum.splits option.splits if_splits)

lemma runPython_ok:
  assumes "worker b \<or> construct_throws t = None" "post_throws t = None"
  shows "posted (snd (runPython t code b)) = posted b @ [(string_of_nat (Suc (reqId b)), code)]"
    and "worker (snd (runPython t code b))"
  using assms
  by (auto simp: runPython_def Let_def getWorker_def split: sum.splits option.splits if_splits)

lemma onmessage_length [simp]:
  "length (promises (onmessage m b)) = length (promises b)"
  by (cases m) (auto simp: onmessage_def resolve_def split: option.splits)

lemma onmessage_settled:
  "q < length (promises b) \<Longrightarrow> promises b ! q \<noteq> Pending \<Longrightarrow>
     promises (onmessage m b) ! q = promises b ! q"
  by (cases m) (auto simp: onmessage_def resolve_def settle_nth split: option.splits)

lemma step_settled:
  "q < length (promises b) \<Longrightarrow> promises b ! q \<noteq> Pending \<Longrightarrow>
     promises (bridge_step b ev) ! q = promises b ! q"
  by (cases ev) (simp_all add: runPython_promises_old onmessage_settled)

lemma onmessage_not_rejected:
  "q < length (promises b) \<Longrightarrow> promises (onmessage m b) ! q = Rejected e \<Longrightarrow>
     promises b ! q = Rejected e"
  by (cases m) (auto simp: onmessage_def resolve_def settle_nth split: option.splits if_splits)

lemma never_rejected:
  "bridge_never_throws evs \<Longrightarrow> q < length (promises (after evs)) \<Longrightarrow>
     promises (after evs) ! q \<noteq> Rejected e"
proof (induction evs arbitrary: q rule: rev_induct)
  case Nil
  then show ?case by (simp add: after_def initial_def)
next
  case (snoc ev evs)
  from snoc.prems(1) have nt: "bridge_never_throws evs"
    by (simp add: bridge_never_throws_def)
  show ?case
  proof (cases ev)
    case (Submit t code)
    with snoc.prems(1) have t: "construct_throws t = None" "post_throws t = None"
      by (simp_all add: bridge_never_throws_def)
    show ?thesis
    proof (cases "q < length (promises (after evs))")
      case True
      with snoc.IH[OF nt True] Submit show ?thesis
        by (simp add: after_snoc runPython_promises_old)
    next
      case False
      with snoc.prems(2) Submit have "q = length (promises (after evs))"
        by (simp add: after_snoc runPython_length)
      with Submit t show ?thesis by (simp add: after_snoc runPython_new)
    qed
  next
    case (Deliver tok out err)
    with snoc.prems(2) have q: "q < length (promises (after evs))"
      by (simp add: after_snoc split: if_splits)
    from snoc.IH[OF nt q] Deliver q show ?thesis
      by (auto simp: after_snoc dest: onmessage_not_rejected)
  qed
qed

text \<open>
  Claim C2. After any sequence of calls of runPython and of messages from the worker:
  no resolve function has been called twice; a message whose token has no pending entry
  leaves the state as it is; a message whose token has an entry calls the resolve
  function of the one promise of that token, with the stdout and stderr of that message,
  removes the entry, and changes no other promise; a promise that was resolved holds the
  values of the message that resolved it, and keeps them; a pending promise has its
  entry; and a new call gets a promise and a token of its own.
\<close>

theorem bridge_correlation:
  "distinct (map fst (resolve_calls (after evs)))
   \<and> (\<forall>tok out err. pending (after evs) tok = None \<longrightarrow>
        onmessage (tok, out, err) (after evs) = after evs)
   \<and> (\<forall>tok out err p. pending (after evs) tok = Some p \<longrightarrow>
        tok = string_of_nat (Suc p) \<and> p < length (promises (after evs)) \<and>
        resolve_calls (onmessage (tok, out, err) (after evs))
          = resolve_calls (after evs) @ [(p, out, err)] \<and>
        pending (onmessage (tok, out, err) (after evs)) = (pending (after evs))(tok := None) \<and>
        (\<forall>q. q \<noteq> p \<longrightarrow>
           promises (onmessage (tok, out, err) (after evs)) ! q = promises (after evs) ! q) \<and>
        (promises (after evs) ! p = Pending \<longrightarrow>
           promises (onmessage (tok, out, err) (after evs)) ! p = Resolved out err))
   \<and> (\<forall>p out err. (p, out, err) \<in> set (resolve_calls (after evs)) \<longrightarrow>
        promises (after evs) ! p = Resolved out err \<or>
        (\<exists>e. promises (after evs) ! p = Rejected e))
   \<and> (\<forall>p<length (promises (after evs)). promises (after evs) ! p = Pending \<longrightarrow>
        pending (after evs) (string_of_nat (Suc p)) = Some p)
   \<and> (\<forall>t code. fst (runPython t code (after evs)) = length (promises (after evs)) \<and>
        pending (snd (runPython t code (after evs)))
          (string_of_nat (Suc (length (promises (after evs)))))
          = Some (length (promises (after evs))))
   \<and> (\<forall>ev q out err. q < length (promises (after evs)) \<and>
        promises (after evs) ! q = Resolved out err \<longrightarrow>
        promises (bridge_step (after evs) ev) ! q = Resolved out err)"
proof -
  let ?b = "after evs"
  have inv: "bridge_inv ?b" by (rule inv_after)
  then have req: "reqId ?b = length (promises ?b)" by (simp add: bridge_inv_def)
  have 1: "distinct (map fst (resolve_calls ?b))"
    using inv by (simp add: bridge_inv_def)
  have 2: "\<forall>tok out err. pending ?b tok = None \<longrightarrow> onmessage (tok, out, err) ?b = ?b"
    by (simp add: onmessage_unknown)
  have 3: "\<forall>tok out err p. pending ?b tok = Some p \<longrightarrow>
        tok = string_of_nat (Suc p) \<and> p < length (promises ?b) \<and>
        resolve_calls (onmessage (tok, out, err) ?b) = resolve_calls ?b @ [(p, out, err)] \<and>
        pending (onmessage (tok, out, err) ?b) = (pending ?b)(tok := None) \<and>
        (\<forall>q. q \<noteq> p \<longrightarrow> promises (onmessage (tok, out, err) ?b) ! q = promises ?b ! q) \<and>
        (promises ?b ! p = Pending \<longrightarrow>
           promises (onmessage (tok, out, err) ?b) ! p = Resolved out err)"
  proof (intro allI impI)
    fix tok out err p
    assume k: "pending ?b tok = Some p"
    with inv have a: "tok = string_of_nat (Suc p)" "p < length (promises ?b)"
      unfolding bridge_inv_def by blast+
    show "tok = string_of_nat (Suc p) \<and> p < length (promises ?b) \<and>
        resolve_calls (onmessage (tok, out, err) ?b) = resolve_calls ?b @ [(p, out, err)] \<and>
        pending (onmessage (tok, out, err) ?b) = (pending ?b)(tok := None) \<and>
        (\<forall>q. q \<noteq> p \<longrightarrow> promises (onmessage (tok, out, err) ?b) ! q = promises ?b ! q) \<and>
        (promises ?b ! p = Pending \<longrightarrow>
           promises (onmessage (tok, out, err) ?b) ! p = Resolved out err)"
      unfolding onmessage_known[OF k] using a by (simp add: settle_def)
  qed
  have 4: "\<forall>p out err. (p, out, err) \<in> set (resolve_calls ?b) \<longrightarrow>
        promises ?b ! p = Resolved out err \<or> (\<exists>e. promises ?b ! p = Rejected e)"
    using inv unfolding bridge_inv_def by blast
  have 5: "\<forall>p<length (promises ?b). promises ?b ! p = Pending \<longrightarrow>
        pending ?b (string_of_nat (Suc p)) = Some p"
    using inv unfolding bridge_inv_def by blast
  have 6: "\<forall>t code. fst (runPython t code ?b) = length (promises ?b) \<and>
        pending (snd (runPython t code ?b)) (string_of_nat (Suc (length (promises ?b))))
          = Some (length (promises ?b))"
    using runPython_pending[of _ _ ?b] by (simp add: runPython_fst req)
  have 7: "\<forall>ev q out err. q < length (promises ?b) \<and> promises ?b ! q = Resolved out err \<longrightarrow>
        promises (bridge_step ?b ev) ! q = Resolved out err"
    by (simp add: step_settled)
  from 1 2 3 4 5 6 7 show ?thesis by blast
qed

text \<open>
  Two requests answered in the opposite order, followed by a second answer to one of them
  and by an answer to a token that was never given.
\<close>

theorem bridge_correlation_witness:
  "promises (after [Submit no_fault ''print(1)'', Submit no_fault ''print(2)'',
                     Deliver ''2'' ''two'' [], Deliver ''1'' ''one'' [],
                     Deliver ''2'' ''late'' [], Deliver ''9'' ''stray'' []])
     = [Resolved ''one'' [], Resolved ''two'' []]
   \<and> resolve_calls (after [Submit no_fault ''print(1)'', Submit no_fault ''print(2)'',
                     Deliver ''2'' ''two'' [], Deliver ''1'' ''one'' [],
                     Deliver ''2'' ''late'' [], Deliver ''9'' ''stray'' []])
     = [(1, ''two'', []), (0, ''one'', [])]
   \<and> distinct (map fst (resolve_calls (after [Submit no_fault ''print(1)'',
                     Submit no_fault ''print(2)'',
                     Deliver ''2'' ''two'' [], Deliver ''1'' ''one'' [],
                     Deliver ''2'' ''late'' [], Deliver ''9'' ''stray'' []])))"
proof -
  let ?tr = "[Submit no_fault ''print(1)'', Submit no_fault ''print(2)'',
                     Deliver ''2'' ''two'' [], Deliver ''1'' ''one'' [],
                     Deliver ''2'' ''late'' [], Deliver ''9'' ''stray'' []]"
  have names: "string_of_nat (Suc 0) = ''1''" "string_of_nat (Suc (Suc 0)) = ''2''"
    by code_simp+
  have st: "promises (after ?tr) = [Resolved ''one'' [], Resolved ''two'' []]"
    "resolve_calls (after ?tr) = [(1, ''two'', []), (0, ''one'', [])]"
    by (simp_all add: after_def runPython_def getWorker_def onmessage_def resolve_def
          settle_def no_fault_def initial_def Let_def names)
  from bridge_correlation[of ?tr]
  have "distinct (map fst (resolve_calls (after ?tr)))" by blast
  with st show ?thesis by simp
qed



lemmas toy_eval = sample_worker_def offline_worker_def toy_runPython_def
  toy_runPythonAsync_def imports_source_def redirect_source_def restore_source_def
  write_source_def quoteJSONString_def quote_char_def newline_def toy_start_def
  zero_division_def name_error_def attribute_error_def String_of_def


section \<open>The round trip of the codec\<close>

lemma string_of_nat_small: "n < 10 \<Longrightarrow> string_of_nat n = [digit_char n]"
  by (subst string_of_nat.simps) simp

lemma string_of_nat_large:
  "10 \<le> n \<Longrightarrow> string_of_nat n = string_of_nat (n div 10) @ [digit_char (n mod 10)]"
  by (subst string_of_nat.simps) simp

lemma string_of_nat_nonempty [simp]: "string_of_nat n \<noteq> []"
  by (cases "n < 10") (simp_all add: string_of_nat_small string_of_nat_large)

lemma string_of_nat_digits: "c \<in> set (string_of_nat n) \<Longrightarrow> is_digit c"
proof (induction n rule: string_of_nat.induct)
  case (1 n)
  show ?case
  proof (cases "n < 10")
    case True
    with "1.prems" show ?thesis
      by (simp add: string_of_nat_small is_digit_digit_char)
  next
    case False
    with "1.prems" "1.IH" show ?thesis
      by (auto simp: string_of_nat_large is_digit_digit_char)
  qed
qed

lemma digit_char_0: "digit_char 0 = CHR ''0''"
  by code_simp

lemma toFixed2_digits_eq:
  assumes "n = nat \<lfloor>x * 100 + 1 / 2\<rfloor>"
  shows "toFixed2_digits x =
     string_of_nat (n div 100) @ ''.'' @ [digit_char (n div 10 mod 10), digit_char (n mod 10)]"
proof -
  consider "n < 10" | "10 \<le> n" "n < 100" | "100 \<le> n" by linarith
  then show ?thesis
  proof cases
    case 1
    then show ?thesis
      using assms by (simp add: toFixed2_digits_def Let_def string_of_nat_small
          numeral_3_eq_3 digit_char_0)
  next
    case 2
    then have s: "string_of_nat n = [digit_char (n div 10), digit_char (n mod 10)]"
      by (simp add: string_of_nat_large string_of_nat_small)
    from 2 have "n div 100 = 0" "n div 10 mod 10 = n div 10" by simp_all
    then show ?thesis
      using assms[symmetric] s
      by (simp add: toFixed2_digits_def Let_def string_of_nat_small digit_char_0)
  next
    case 3
    then have a: "string_of_nat n = string_of_nat (n div 10) @ [digit_char (n mod 10)]"
      by (simp add: string_of_nat_large)
    from 3 have "10 \<le> n div 10" by simp
    then have b: "string_of_nat (n div 10)
        = string_of_nat (n div 10 div 10) @ [digit_char (n div 10 mod 10)]"
      by (rule string_of_nat_large)
    have c: "n div 10 div 10 = n div 100" by (simp add: div_mult2_eq[symmetric])
    have s: "string_of_nat n = string_of_nat (n div 100)
        @ [digit_char (n div 10 mod 10), digit_char (n mod 10)]"
      using a b c by simp
    have len: "length (string_of_nat (n div 100)) \<noteq> 0" by simp
    show ?thesis
      using assms[symmetric] s len
      by (simp add: toFixed2_digits_def Let_def)
  qed
qed

lemma is_coord_not_space: "is_coord_char c \<Longrightarrow> \<not> is_space c"
  by (auto simp: is_coord_char_def is_space_def is_digit_def)

lemma is_coord_not_command: "is_coord_char c \<Longrightarrow> \<not> is_command c"
  by (auto simp: is_coord_char_def is_command_def is_digit_def)

lemma space_is_space [simp]: "is_space (CHR '' '')" "\<not> is_coord_char (CHR '' '')"
  "\<not> is_command (CHR '' '')"
  by (simp_all add: is_space_def is_coord_char_def is_digit_def is_command_def)

lemma dot_not_digit [simp]: "\<not> is_digit (CHR ''.'')" "\<not> is_digit (CHR ''-'')"
  "\<not> is_space (CHR ''-'')" "\<not> is_space (CHR ''.'')"
  by (simp_all add: is_digit_def is_space_def)

lemma digit_not_space: "is_digit c \<Longrightarrow> \<not> is_space c"
  by (auto simp: is_digit_def is_space_def)

lemma nat_of_digits_append_two:
  "nat_of_digits (ds @ [a, b]) = 100 * nat_of_digits ds + 10 * digit_val a + digit_val b"
  by (simp add: nat_of_digits_def)

text \<open>The digits of \<open>n\<close> hundredths read back as \<open>n\<close>.\<close>

lemma hundredths_value:
  "nat_of_digits (string_of_nat (n div 100) @ [digit_char (n div 10 mod 10), digit_char (n mod 10)]) = n"
proof -
  have "100 * (n div 100) + 10 * (n div 10 mod 10) + n mod 10 = n"
    using mod_mult2_eq[of n 10 10] div_mult_mod_eq[of n 100] by simp
  then show ?thesis
    by (simp add: nat_of_digits_append_two nat_of_digits_string_of_nat digit_val_digit_char)
qed

lemma takeWhile_digits_dot:
  "takeWhile is_digit (string_of_nat m @ CHR ''.'' # r) = string_of_nat m"
  "dropWhile is_digit (string_of_nat m @ CHR ''.'' # r) = CHR ''.'' # r"
  by (simp_all add: takeWhile_append2 dropWhile_append2 string_of_nat_digits)

lemma digit_facts:
  assumes "is_digit c"
  shows "\<not> is_space c" "c \<noteq> CHR ''-''" "c \<noteq> CHR ''+''" "c \<noteq> CHR ''I''" "c \<noteq> CHR ''.''"
  using assms by (auto simp: is_digit_def is_space_def)

lemma not_Infinity: "is_digit c \<Longrightarrow> (take 8 (c # r) = ''Infinity'') = False"
  using digit_facts(4)[of c] by (simp add: take_Cons')

lemma parseFloat_unsigned:
  assumes s: "s = c # cs @ CHR ''.'' # [a, b]"
    and d: "is_digit c" "\<forall>x\<in>set cs. is_digit x" "is_digit a" "is_digit b"
  shows "parseFloat s = to_double (of_nat (nat_of_digits (c # cs @ [a, b])) / 100)"
    and "parseFloat (CHR ''-'' # s) = to_double (- (of_nat (nat_of_digits (c # cs @ [a, b])) / 100))"
proof -
  have tw: "takeWhile is_digit (c # cs @ CHR ''.'' # [a, b]) = c # cs"
    "dropWhile is_digit (c # cs @ CHR ''.'' # [a, b]) = CHR ''.'' # [a, b]"
    using d by (simp_all add: takeWhile_append2 dropWhile_append2)
  have frac: "takeWhile is_digit [a, b] = [a, b]" "dropWhile is_digit [a, b] = []"
    using d by simp_all
  have sp: "dropWhile is_space s = s" "dropWhile is_space (CHR ''-'' # s) = CHR ''-'' # s"
    using digit_facts(1)[OF d(1)] by (simp_all add: s)
  have sign: "(case s of [] \<Rightarrow> (False, s)
       | c # r \<Rightarrow> if c = CHR ''-'' then (True, r)
                  else if c = CHR ''+'' then (False, r) else (False, s)) = (False, s)"
    using digit_facts[OF d(1)] by (simp add: s)
  have inf: "(take 8 s = ''Infinity'') = False"
    unfolding s by (rule not_Infinity[OF d(1)])
  show "parseFloat s = to_double (of_nat (nat_of_digits (c # cs @ [a, b])) / 100)"
    unfolding parseFloat_def sp
    apply (simp only: Let_def sign prod.case inf if_False)
    unfolding s tw
    apply (simp only: Let_def list.case refl if_True frac prod.case)
    apply (simp add: exponent_part_def)
    done
  show "parseFloat (CHR ''-'' # s) = to_double (- (of_nat (nat_of_digits (c # cs @ [a, b])) / 100))"
    unfolding parseFloat_def sp
    apply (simp only: Let_def list.case prod.case if_True refl inf if_False)
    unfolding s tw
    apply (simp only: Let_def list.case refl if_True frac prod.case)
    apply (simp add: exponent_part_def)
    done
qed

lemma parseFloat_fixed_text:
  "parseFloat (fixed_text n) = to_double (of_nat n / 100)"
  "parseFloat (CHR ''-'' # fixed_text n) = to_double (- (of_nat n / 100))"
proof -
  obtain c cs where m: "string_of_nat (n div 100) = c # cs"
    by (cases "string_of_nat (n div 100)") simp_all
  have dc: "is_digit c" "\<forall>x\<in>set cs. is_digit x"
    using string_of_nat_digits[of _ "n div 100"] m by auto
  have da: "is_digit (digit_char (n div 10 mod 10))" "is_digit (digit_char (n mod 10))"
    by (simp_all add: is_digit_digit_char)
  have f: "fixed_text n = c # cs @ CHR ''.'' # [digit_char (n div 10 mod 10), digit_char (n mod 10)]"
    by (simp add: fixed_text_def m)
  have v: "nat_of_digits (c # cs @ [digit_char (n div 10 mod 10), digit_char (n mod 10)]) = n"
    using hundredths_value[of n] by (simp add: m)
  from parseFloat_unsigned[OF f dc da] v
  show "parseFloat (fixed_text n) = to_double (of_nat n / 100)"
    "parseFloat (CHR ''-'' # fixed_text n) = to_double (- (of_nat n / 100))"
    by simp_all
qed

lemma toFixed2_text:
  assumes "\<bar>v\<bar> < 10 ^ 21"
  shows "toFixed2 (Val v) =
     (if v < 0 then CHR ''-'' # fixed_text (nat \<lfloor>\<bar>v\<bar> * 100 + 1 / 2\<rfloor>)
      else fixed_text (nat \<lfloor>\<bar>v\<bar> * 100 + 1 / 2\<rfloor>))"
proof -
  from assms have small: "\<not> 10 ^ 21 \<le> \<bar>v\<bar>" by simp
  have "toFixed2_abs \<bar>v\<bar> = fixed_text (nat \<lfloor>\<bar>v\<bar> * 100 + 1 / 2\<rfloor>)"
    using small toFixed2_digits_eq[OF refl, of "\<bar>v\<bar>"]
    by (simp add: toFixed2_abs_def fixed_text_def)
  then show ?thesis by (auto simp: abs_if)
qed

text \<open>
  The text that toFixed prints for a number rounded to two decimals, of magnitude below
  \<open>10^21\<close>, reads back as that number.
\<close>

lemma parseFloat_toFixed2_pos:
  assumes "0 < k" "to_double (of_int k / 100) = Val v" "v < 10 ^ 21"
  shows "parseFloat (fixed_text (nat \<lfloor>v * 100 + 1 / 2\<rfloor>)) = Val v"
    and "parseFloat (CHR ''-'' # fixed_text (nat \<lfloor>v * 100 + 1 / 2\<rfloor>)) = Val (- v)"
proof -
  have p: "0 < v" by (rule hundredths_pos[OF assms(1,2)])
  then have "0 \<le> \<lfloor>v * 100 + 1 / 2\<rfloor>" by simp
  then have n: "(of_nat (nat \<lfloor>v * 100 + 1 / 2\<rfloor>) :: rat) = of_int \<lfloor>v * 100 + 1 / 2\<rfloor>"
    by simp
  have r: "to_double (of_int \<lfloor>v * 100 + 1 / 2\<rfloor> / 100) = Val v"
    by (rule hundredths_round_trip_pos[OF assms])
  show "parseFloat (fixed_text (nat \<lfloor>v * 100 + 1 / 2\<rfloor>)) = Val v"
    by (simp only: parseFloat_fixed_text(1) n r)
  have "to_double (- (of_int \<lfloor>v * 100 + 1 / 2\<rfloor> / 100)) = Val (- v)"
    by (simp only: to_double_minus r negate.simps)
  then show "parseFloat (CHR ''-'' # fixed_text (nat \<lfloor>v * 100 + 1 / 2\<rfloor>)) = Val (- v)"
    by (simp only: parseFloat_fixed_text(2) n)
qed

lemma fixed_text_zero: "fixed_text 0 = ''0.00''"
  by (simp add: fixed_text_def string_of_nat.simps digit_char_0)

lemma parseFloat_toFixed2:
  assumes "to_double (of_int k / 100) = Val v" "\<bar>v\<bar> < 10 ^ 21"
  shows "parseFloat (toFixed2 (Val v)) = Val v"
proof -
  note tx = toFixed2_text[OF assms(2)]
  consider "0 < k" | "k = 0" | "k < 0" by linarith
  then show ?thesis
  proof cases
    case 1
    have p: "0 < v" by (rule hundredths_pos[OF 1 assms(1)])
    then have a: "\<bar>v\<bar> = v" "\<not> v < 0" by simp_all
    from assms(2) have "v < 10 ^ 21" by (simp only: a)
    from parseFloat_toFixed2_pos(1)[OF 1 assms(1) this] show ?thesis
      by (simp only: tx a if_False)
  next
    case 2
    with assms(1) have v: "v = 0" by simp
    have "parseFloat (fixed_text 0) = to_double (of_nat 0 / 100)"
      by (rule parseFloat_fixed_text(1))
    then show ?thesis unfolding v by (simp add: toFixed2_abs_def fixed_text_zero
          toFixed2_digits_eq[OF refl, of 0, unfolded fixed_text_def[symmetric]])
  next
    case 3
    then have k': "0 < - k" by simp
    have "to_double (of_int (- k) / 100) = negate (to_double (of_int k / 100))"
      using to_double_minus[of "of_int k / 100"] by simp
    then have c': "to_double (of_int (- k) / 100) = Val (- v)"
      by (simp only: assms(1) negate.simps)
    have p: "0 < - v" by (rule hundredths_pos[OF k' c'])
    then have a: "\<bar>v\<bar> = - v" "v < 0" by simp_all
    from assms(2) have "- v < 10 ^ 21" by (simp only: a)
    from parseFloat_toFixed2_pos(2)[OF k' c' this] show ?thesis
      by (simp only: tx a if_True minus_minus)
  qed
qed

lemma fixed_text_coord: "coord_text (fixed_text n)"
  by (auto simp: coord_text_def fixed_text_def is_coord_char_def is_digit_digit_char
      dest: string_of_nat_digits)

lemma codable_cases:
  "codable n \<Longrightarrow> \<exists>v k. n = Val v \<and> to_double (of_int k / 100) = Val v \<and> \<bar>v\<bar> < 10 ^ 21"
  by (cases n) (auto simp: codable_def)

lemma toFixed2_coord: "codable n \<Longrightarrow> coord_text (toFixed2 n)"
proof -
  assume "codable n"
  then obtain v where v: "n = Val v" "\<bar>v\<bar> < 10 ^ 21"
    using codable_cases by blast
  have "coord_text (CHR ''-'' # fixed_text m)" for m
    using fixed_text_coord[of m] by (simp add: coord_text_def is_coord_char_def)
  then show ?thesis
    unfolding v(1) toFixed2_text[OF v(2)] using fixed_text_coord by simp
qed

lemma parseFloat_codable: "codable n \<Longrightarrow> parseFloat (toFixed2 n) = n"
  using codable_cases parseFloat_toFixed2 by blast

lemma match_at_segment:
  assumes c: "is_command c" and a: "coord_text a" and b: "coord_text b"
    and r: "r = [] \<or> \<not> is_coord_char (hd r)"
  shows "match_at (c # a @ CHR '' '' # b @ r) = Some (a, b, r)"
proof -
  from a obtain a0 a' where a': "a = a0 # a'" "\<not> is_space a0" "\<forall>x\<in>set a. is_coord_char x"
    by (cases a) (auto simp: coord_text_def is_coord_not_space)
  from b obtain b0 b' where b': "b = b0 # b'" "\<not> is_space b0" "\<forall>x\<in>set b. is_coord_char x"
    by (cases b) (auto simp: coord_text_def is_coord_not_space)
  have tr: "takeWhile is_coord_char r = []" "dropWhile is_coord_char r = r"
    using r by (cases r; simp)+
  have 1: "dropWhile is_space (a @ CHR '' '' # b @ r) = a @ CHR '' '' # b @ r"
    using a'(2) by (simp add: a'(1))
  have 2: "takeWhile is_coord_char (a @ CHR '' '' # b @ r) = a"
    "dropWhile is_coord_char (a @ CHR '' '' # b @ r) = CHR '' '' # b @ r"
    using a'(3) by (simp_all add: takeWhile_append2 dropWhile_append2)
  have 3: "takeWhile is_space (CHR '' '' # b @ r) = '' ''"
    "dropWhile is_space (CHR '' '' # b @ r) = b @ r"
    using b'(2) by (simp_all add: b'(1))
  have 4: "takeWhile is_coord_char (b @ r) = b" "dropWhile is_coord_char (b @ r) = r"
    using b'(3) tr by (simp_all add: takeWhile_append2 dropWhile_append2)
  have ne: "a \<noteq> []" "b \<noteq> []" using a'(1) b'(1) by simp_all
  show ?thesis
    unfolding match_at_def
    by (simp only: list.case c not_True_eq_False if_False Let_def 1 2 3 4)
       (simp add: ne)
qed

lemma tail_text_start: "tail_text qs = [] \<or> \<not> is_coord_char (hd (tail_text qs))"
  by (cases qs) simp_all

declare exec_all.simps [simp del]

lemma exec_all_space: "exec_all (CHR '' '' # s) = exec_all s"
  by (simp add: exec_all.simps match_at_def)

lemma exec_all_segment:
  assumes "is_command c" "coord_text a" "coord_text b" "r = [] \<or> \<not> is_coord_char (hd r)"
  shows "exec_all (c # a @ CHR '' '' # b @ r) = (a, b) # exec_all r"
  by (simp add: exec_all.simps match_at_segment[OF assms])

lemma exec_all_tail:
  "\<forall>q\<in>set qs. codable (px q) \<and> codable (py q) \<Longrightarrow>
   exec_all (tail_text qs) = map (\<lambda>q. (toFixed2 (px q), toFixed2 (py q))) qs"
proof (induction qs)
  case Nil
  show ?case by (simp add: exec_all.simps)
next
  case (Cons q qs)
  have L: "is_command (CHR ''L'')" by (simp add: is_command_def)
  from Cons.prems have cq: "coord_text (toFixed2 (px q))" "coord_text (toFixed2 (py q))"
    by (simp_all add: toFixed2_coord)
  have t: "tail_text (q # qs)
        = CHR '' '' # (CHR ''L'' # toFixed2 (px q) @ CHR '' '' # toFixed2 (py q) @ tail_text qs)"
    by (simp add: lineTo_def)
  have "exec_all (tail_text (q # qs))
        = exec_all (CHR ''L'' # toFixed2 (px q) @ CHR '' '' # toFixed2 (py q) @ tail_text qs)"
    unfolding t by (rule exec_all_space)
  also have "\<dots> = (toFixed2 (px q), toFixed2 (py q)) # exec_all (tail_text qs)"
    by (rule exec_all_segment[OF L cq tail_text_start])
  finally show ?case using Cons by simp
qed

lemma join_tail: "join '' '' (x # map lineTo qs) = x @ tail_text qs"
  by (induction qs arbitrary: x) simp_all

lemma strokeToPathD_text:
  "2 \<le> length stroke \<Longrightarrow> strokeToPathD stroke = moveTo (hd stroke) @ tail_text (tl stroke)"
proof -
  assume "2 \<le> length stroke"
  then obtain q0 q1 qs where s: "stroke = q0 # q1 # qs"
    by (cases stroke; cases "tl stroke") auto
  show ?thesis unfolding s using join_tail[of "moveTo q0" "q1 # qs"] by simp
qed

lemma exec_all_stroke:
  assumes "2 \<le> length stroke" "\<forall>q\<in>set stroke. codable (px q) \<and> codable (py q)"
  shows "exec_all (strokeToPathD stroke) = map (\<lambda>q. (toFixed2 (px q), toFixed2 (py q))) stroke"
proof -
  from assms(1) obtain q0 qs where s: "stroke = q0 # qs" by (cases stroke) auto
  have M: "is_command (CHR ''M'')" by (simp add: is_command_def)
  from assms(2) have cq: "coord_text (toFixed2 (px q0))" "coord_text (toFixed2 (py q0))"
    by (simp_all add: s toFixed2_coord)
  have "exec_all (strokeToPathD stroke)
        = exec_all (CHR ''M'' # toFixed2 (px q0) @ CHR '' '' # toFixed2 (py q0) @ tail_text qs)"
    using strokeToPathD_text[OF assms(1)] by (simp add: s moveTo_def)
  also have "\<dots> = (toFixed2 (px q0), toFixed2 (py q0)) # exec_all (tail_text qs)"
    by (rule exec_all_segment[OF M cq tail_text_start])
  finally show ?thesis using assms(2) by (simp add: s exec_all_tail)
qed

lemma pointOf_codable:
  "codable (px q) \<Longrightarrow> codable (py q) \<Longrightarrow>
   pointOf (toFixed2 (px q), toFixed2 (py q)) = Some (decoded q)"
proof -
  assume c: "codable (px q)" "codable (py q)"
  then have nn: "px q \<noteq> NaN" "py q \<noteq> NaN" by (auto simp: codable_def)
  show ?thesis
    by (simp add: pointOf_def Let_def isNaN_def decoded_def parseFloat_codable[OF c(1)]
          parseFloat_codable[OF c(2)] nn)
qed

lemma parsePathD_stroke:
  assumes "2 \<le> length stroke" "\<forall>q\<in>set stroke. codable (px q) \<and> codable (py q)"
  shows "parsePathD (strokeToPathD stroke) = map decoded stroke"
proof -
  have "List.map_filter pointOf (map (\<lambda>q. (toFixed2 (px q), toFixed2 (py q))) stroke)
        = map decoded stroke"
    using assms(2)
    by (induction stroke) (simp_all add: List.map_filter_simps pointOf_codable)
  then show ?thesis by (simp add: parsePathD_def exec_all_stroke[OF assms])
qed

lemma in_value:
  "q \<notin> set v \<Longrightarrow>
   foldl read_char (InValue n as a q acc, es) v = (InValue n as a q (rev v @ acc), es)"
  by (induction v arbitrary: acc) auto

lemma read_path:
  assumes "CHR 0x22 \<notin> set d" "CHR 0x22 \<notin> set swt"
  shows "foldl read_char (Content, es) (path_text swt d) = (Content, path_element swt d # es)"
  using assms
  by (simp add: path_text_def path_element_def in_value is_space_def)

lemma read_header:
  assumes "CHR 0x22 \<notin> set wt" "CHR 0x22 \<notin> set ht"
  shows "foldl read_char (Content, []) (header_text wt ht) = (Content, [svg_element wt ht])"
  using assms
  by (simp add: header_text_def svg_element_def newline_def in_value is_space_def)

lemma read_footer:
  "foldl read_char (Content, es) (newline @ ''</svg>'') = (Content, es)"
  by (simp add: newline_def)

lemma read_paths:
  assumes "\<forall>d\<in>set ds. CHR 0x22 \<notin> set d" "CHR 0x22 \<notin> set swt"
  shows "foldl read_char (Content, es) (concat (map (\<lambda>d. newline @ path_text swt d) ds))
         = (Content, rev (map (path_element swt) ds) @ es)"
  using assms(1)
proof (induction ds arbitrary: es)
  case Nil
  show ?case by simp
next
  case (Cons d ds)
  have nl: "foldl read_char (Content, es) newline = (Content, es)"
    by (simp add: newline_def)
  from Cons.prems have d: "CHR 0x22 \<notin> set d" by simp
  from Cons.prems have "\<forall>d\<in>set ds. CHR 0x22 \<notin> set d" by simp
  from Cons.IH[OF this] show ?case
    by (simp add: nl read_path[OF d assms(2)])
qed

lemma join_concat: "join sep (x # xs) = x @ concat (map (\<lambda>y. sep @ y) xs)"
  by (induction xs arbitrary: x) simp_all

lemma read_joined:
  assumes "\<forall>d\<in>set ds. CHR 0x22 \<notin> set d" "CHR 0x22 \<notin> set swt"
  shows "foldl read_char (Content, es) (join newline (map (path_text swt) ds))
         = (Content, rev (map (path_element swt) ds) @ es)"
proof (cases ds)
  case Nil
  then show ?thesis by simp
next
  case (Cons d ds')
  from assms(1) Cons have d: "CHR 0x22 \<notin> set d" and ds': "\<forall>d\<in>set ds'. CHR 0x22 \<notin> set d"
    by simp_all
  have "join newline (map (path_text swt) ds)
        = path_text swt d @ concat (map (\<lambda>d. newline @ path_text swt d) ds')"
    by (simp add: Cons join_concat comp_def)
  then show ?thesis
    by (simp add: Cons read_path[OF d assms(2)] read_paths[OF ds' assms(2)])
qed

lemma digit_not_quote: "is_digit c \<Longrightarrow> c \<noteq> CHR 0x22"
  by (auto simp: is_digit_def)

lemma coord_not_quote: "is_coord_char c \<Longrightarrow> c \<noteq> CHR 0x22"
  by (auto simp: is_coord_char_def is_digit_def)

lemma nat_digits_lt10: "d \<in> set (nat_digits n) \<Longrightarrow> d < 10"
proof (induction n rule: nat_digits.induct)
  case (1 n)
  show ?case
  proof (cases "n < 10")
    case True
    with "1.prems" show ?thesis by (subst (asm) nat_digits.simps) simp
  next
    case False
    with "1.prems" have "d \<in> set (nat_digits (n div 10)) \<or> d = n mod 10"
      by (subst (asm) nat_digits.simps) auto
    with "1.IH"[OF False] show ?thesis by auto
  qed
qed

lemma set_strip_trailing_zeros: "set (strip_trailing_zeros ds) \<subseteq> set ds"
  unfolding strip_trailing_zeros_def using set_dropWhileD[of _ "\<lambda>d. d = 0" "rev ds"] by auto

lemma sig_digits_lt10: "d \<in> set (fst (sig_digits v)) \<Longrightarrow> d < 10"
  using set_strip_trailing_zeros nat_digits_lt10
  by (fastforce simp: sig_digits_def Let_def split: prod.splits)

lemma toString_pos_no_quote: "CHR 0x22 \<notin> set (toString_pos v)"
proof
  assume q: "CHR 0x22 \<in> set (toString_pos v)"
  obtain s n where sn: "sig_digits v = (s, n)" by (cases "sig_digits v")
  have ds: "\<And>d. d \<in> set s \<Longrightarrow> CHR 0x22 \<noteq> digit_char d"
  proof -
    fix d assume "d \<in> set s"
    with sig_digits_lt10[of d v] sn have "is_digit (digit_char d)"
      by (simp add: is_digit_digit_char)
    then have "digit_char d \<noteq> CHR 0x22" by (rule digit_not_quote)
    then show "CHR 0x22 \<noteq> digit_char d" by (rule not_sym)
  qed
  have sn': "\<And>m c. c \<in> set (string_of_nat m) \<Longrightarrow> c \<noteq> CHR 0x22"
    using string_of_nat_digits digit_not_quote by blast
  from q show False
    unfolding toString_pos_def sn
    by (auto simp: Let_def ds split: if_splits dest!: in_set_takeD in_set_dropD sn')
qed

lemma numberToString_no_quote: "CHR 0x22 \<notin> set (numberToString n)"
proof (cases n)
  case (Val v)
  then show ?thesis
    using toString_pos_no_quote[of v] toString_pos_no_quote[of "- v"] by auto
qed simp_all

lemma coord_text_no_quote: "coord_text s \<Longrightarrow> CHR 0x22 \<notin> set s"
  using coord_not_quote by (auto simp: coord_text_def)

lemma tail_text_no_quote:
  "\<forall>q\<in>set qs. codable (px q) \<and> codable (py q) \<Longrightarrow> CHR 0x22 \<notin> set (tail_text qs)"
proof (induction qs)
  case Nil
  show ?case by simp
next
  case (Cons q qs)
  from Cons.prems have "CHR 0x22 \<notin> set (toFixed2 (px q))" "CHR 0x22 \<notin> set (toFixed2 (py q))"
    by (simp_all add: toFixed2_coord coord_text_no_quote)
  with Cons show ?case by (simp add: lineTo_def)
qed

lemma strokeToPathD_plain:
  assumes "2 \<le> length stroke" "\<forall>q\<in>set stroke. codable (px q) \<and> codable (py q)"
  shows "strokeToPathD stroke \<noteq> []" "CHR 0x22 \<notin> set (strokeToPathD stroke)"
proof -
  from assms(1) obtain q0 qs where s: "stroke = q0 # qs" by (cases stroke) auto
  have t: "strokeToPathD stroke = moveTo q0 @ tail_text qs"
    using strokeToPathD_text[OF assms(1)] by (simp add: s)
  show "strokeToPathD stroke \<noteq> []" by (simp add: t moveTo_def)
  from assms(2) have "CHR 0x22 \<notin> set (toFixed2 (px q0))" "CHR 0x22 \<notin> set (toFixed2 (py q0))"
    by (simp_all add: s toFixed2_coord coord_text_no_quote)
  moreover from assms(2) have "CHR 0x22 \<notin> set (tail_text qs)"
    by (simp add: s tail_text_no_quote)
  ultimately show "CHR 0x22 \<notin> set (strokeToPathD stroke)" by (simp add: t moveTo_def)
qed

lemma path_texts:
  assumes "\<forall>stroke\<in>set ss. codable_stroke stroke"
  shows "filter (\<lambda>s. s \<noteq> []) (map (pathElement sw) ss)
         = map (path_text (numberToString sw)) (map strokeToPathD ss)"
  using assms
proof (induction ss)
  case Nil
  show ?case by simp
next
  case (Cons stroke ss)
  from Cons.prems have c: "2 \<le> length stroke" "\<forall>q\<in>set stroke. codable (px q) \<and> codable (py q)"
    by (simp_all add: codable_stroke_def)
  have ne: "strokeToPathD stroke \<noteq> []" by (rule strokeToPathD_plain(1)[OF c])
  have "pathElement sw stroke = path_text (numberToString sw) (strokeToPathD stroke)"
    using ne by (simp add: pathElement_def path_text_def Let_def)
  moreover have "path_text (numberToString sw) (strokeToPathD stroke) \<noteq> []"
    by (simp add: path_text_def)
  ultimately show ?case using Cons by simp
qed

lemma strokesToSvg_text:
  assumes "\<forall>stroke\<in>set ss. codable_stroke stroke"
  shows "strokesToSvg ss w h sw
         = header_text (numberToString w) (numberToString h)
           @ join newline (map (path_text (numberToString sw)) (map strokeToPathD ss))
           @ newline @ ''</svg>''"
  by (simp add: strokesToSvg_def Let_def path_texts[OF assms] header_text_def)

lemma parse_strokesToSvg:
  assumes "\<forall>stroke\<in>set ss. codable_stroke stroke"
  shows "parseFromString (strokesToSvg ss w h sw)
         = svg_element (numberToString w) (numberToString h)
           # map (path_element (numberToString sw)) (map strokeToPathD ss)"
proof -
  have ds: "\<forall>d\<in>set (map strokeToPathD ss). CHR 0x22 \<notin> set d"
    using assms strokeToPathD_plain(2) by (auto simp: codable_stroke_def)
  note q = numberToString_no_quote
  show ?thesis
    unfolding parseFromString_def strokesToSvg_text[OF assms]
    by (simp only: foldl_append read_header[OF q q] read_joined[OF ds q]
          read_footer[unfolded foldl_append])
       simp
qed

lemma pathStrokes_path:
  "pathStrokes (path_element swt d # ps)
     = (if d \<noteq> [] \<and> parsePathD d \<noteq> [] then [parsePathD d] else []) @ pathStrokes ps"
  by (simp add: pathStrokes_def path_element_def getAttribute_def present_def Let_def)

lemma pathStrokes_encoded:
  assumes "\<forall>stroke\<in>set ss. codable_stroke stroke"
  shows "pathStrokes (map (path_element swt) (map strokeToPathD ss)) = map (map decoded) ss"
  using assms
proof (induction ss)
  case Nil
  show ?case by (simp add: pathStrokes_def)
next
  case (Cons stroke ss)
  from Cons.prems have c: "2 \<le> length stroke" "\<forall>q\<in>set stroke. codable (px q) \<and> codable (py q)"
    by (simp_all add: codable_stroke_def)
  have ne: "strokeToPathD stroke \<noteq> []" by (rule strokeToPathD_plain(1)[OF c])
  have p: "parsePathD (strokeToPathD stroke) = map decoded stroke"
    by (rule parsePathD_stroke[OF c])
  have s: "stroke \<noteq> []" using c(1) by auto
  from Cons have "pathStrokes (map (path_element swt) (map strokeToPathD ss)) = map (map decoded) ss"
    by simp
  then show ?case
    using ne p s by (simp add: pathStrokes_path)
qed

lemma svgToStrokes_encoded:
  assumes "\<forall>stroke\<in>set ss. codable_stroke stroke"
  shows "strokes_of (svgToStrokes (strokesToSvg ss w h sw)) = map (map decoded) ss"
proof -
  have qsa: "querySelectorAll (svg_element wt ht # map (path_element swt) ds) ''path''
        = map (path_element swt) ds" for wt ht swt ds
    by (induction ds) (simp_all add: querySelectorAll_def svg_element_def path_element_def)
  have st: "strokes_of (svgToStrokes_doc doc) = pathStrokes (querySelectorAll doc ''path'')"
    for doc by (simp add: svgToStrokes_doc_def split_beta)
  show ?thesis
    by (simp only: svgToStrokes_def st parse_strokesToSvg[OF assms] qsa
          pathStrokes_encoded[OF assms])
qed

text \<open>
  Claim C1, as the code has it. For strokes of two or more points whose coordinates are
  numbers rounded to two decimals (each the double nearest to some number of hundredths)
  of magnitude below \<open>10^21\<close>, decoding the encoded document gives as many strokes, in
  the same order, each with as many points, each point with the very coordinates of the
  original one, pressure 0.5 and time 0, whatever the width, the height and the stroke
  width of the document are.
\<close>
theorem codec_round_trip:
  assumes "\<forall>stroke\<in>set ss. 2 \<le> length stroke \<and>
             (\<forall>q\<in>set stroke.
                (\<exists>k. px q = to_double (of_int k / 100)) \<and> below_1e21 (px q) \<and>
                (\<exists>k. py q = to_double (of_int k / 100)) \<and> below_1e21 (py q))"
  shows "length (strokes_of (svgToStrokes (strokesToSvg ss w h sw))) = length ss
     \<and> (\<forall>i<length ss.
          length (strokes_of (svgToStrokes (strokesToSvg ss w h sw)) ! i) = length (ss ! i) \<and>
          (\<forall>j<length (ss ! i).
             px (strokes_of (svgToStrokes (strokesToSvg ss w h sw)) ! i ! j) = px (ss ! i ! j) \<and>
             py (strokes_of (svgToStrokes (strokesToSvg ss w h sw)) ! i ! j) = py (ss ! i ! j) \<and>
             pp (strokes_of (svgToStrokes (strokesToSvg ss w h sw)) ! i ! j) = Val (1 / 2) \<and>
             pt (strokes_of (svgToStrokes (strokesToSvg ss w h sw)) ! i ! j) = Val 0))"
proof -
  from assms have "\<forall>stroke\<in>set ss. codable_stroke stroke"
    by (simp add: codable_stroke_def codable_def)
  then have "strokes_of (svgToStrokes (strokesToSvg ss w h sw)) = map (map decoded) ss"
    by (rule svgToStrokes_encoded)
  then show ?thesis by (simp add: decoded_def)
qed

lemma parse_document:
  assumes "\<forall>d\<in>set ds. CHR 0x22 \<notin> set d"
    and "CHR 0x22 \<notin> set wt" "CHR 0x22 \<notin> set ht" "CHR 0x22 \<notin> set swt"
  shows "parseFromString (header_text wt ht @ join newline (map (path_text swt) ds)
                          @ newline @ ''</svg>'')
         = svg_element wt ht # map (path_element swt) ds"
  unfolding parseFromString_def
  by (simp only: foldl_append read_header[OF assms(2,3)] read_joined[OF assms(1,4)]
        read_footer[unfolded foldl_append])
     simp

lemma toFixed2_zero: "toFixed2 (Val 0) = ''0.00''"
  by code_simp

lemma toFixed2_huge: "toFixed2 (Val 1000000000000000000000) = ''1e+21''"
  by (simp add: toFixed2_abs_def toString_1e21)

lemma huge_path: "parsePathD ''M1e+21 0.00 L0.00 0.00''
   = [\<lparr>px = Val 0, py = Val 0, pp = Val (1 / 2), pt = Val 0\<rparr>]"
proof -
  have e: "exec_all ''M1e+21 0.00 L0.00 0.00'' = [(''0.00'', ''0.00'')]"
    by code_simp
  have "parseFloat (fixed_text 0) = to_double (of_nat 0 / 100)"
    by (rule parseFloat_fixed_text(1))
  then have p: "parseFloat ''0.00'' = Val 0" by (simp add: fixed_text_zero)
  show ?thesis
    by (simp add: parsePathD_def e List.map_filter_simps pointOf_def Let_def p isNaN_def)
qed

lemma toString_320: "toString_pos 320 = ''320''"
proof -
  have d: "decimal_exp 320 = 3"
    by (simp add: decimal_exp_numeral nat_digits.simps)
  have r: "\<not> reads_as 320 3 2" "\<not> reads_as 320 4 2" "reads_as 320 32 1" "\<not> reads_as 320 33 1"
    by (simp_all add: reads_as_def)
  have f: "\<lfloor>(16::rat) / 5\<rfloor> = 3" by linarith
  have "digits_at 320 2 = None" "digits_at 320 1 = Some 32"
    by (simp_all add: digits_at_def Let_def r f)
  then have s: "shortest 17 320 2 = (32, 1)"
    by (simp add: numeral_eq_Suc)
  show ?thesis
    by (simp add: toString_pos_def sig_digits_def d s nat_digits.simps strip_trailing_zeros_def
          digit_chars)
qed

lemma sample_numbers:
  "numberToString (Val 800) = ''800''" "numberToString (Val 320) = ''320''"
  "numberToString (Val 4) = ''4''"
  by (simp_all add: toString_800 toString_320 toString_4)

lemma huge_stroke:
  "strokeToPathD [\<lparr>px = Val 1000000000000000000000, py = Val 0, pp = Val 1, pt = Val 7\<rparr>,
                  \<lparr>px = Val 0, py = Val 0, pp = Val 1, pt = Val 8\<rparr>]
   = ''M1e+21 0.00 L0.00 0.00''"
  by (simp add: moveTo_def lineTo_def toFixed2_zero toFixed2_huge del: toFixed2.simps)

lemma decode_document:
  "strokes_of (svgToStrokes_doc (svg_element wt ht # map (path_element swt) ds))
   = pathStrokes (map (path_element swt) ds)"
proof -
  have qsa: "querySelectorAll (svg_element wt ht # map (path_element swt) ds) ''path''
        = map (path_element swt) ds"
    by (induction ds) (simp_all add: querySelectorAll_def svg_element_def path_element_def)
  show ?thesis by (simp add: svgToStrokes_doc_def split_beta qsa)
qed

text \<open>
  Claim C1 as stated fails: the number \<open>10^21\<close> is a double and a whole number of
  hundredths, toFixed prints it as \<^verbatim>\<open>1e+21\<close>, the pattern of parsePathD finds no
  command with two coordinates at \<^verbatim>\<open>M1e+21 0.00\<close>, and the stroke of two points comes
  back with one point, at (0, 0).
\<close>
theorem huge_coordinate_counterexample:
  "to_double (of_int (10 ^ 23) / 100) = Val (10 ^ 21) \<and> to_double (of_int 0 / 100) = Val 0 \<and>
   strokes_of (svgToStrokes (strokesToSvg
     [[\<lparr>px = Val (10 ^ 21), py = Val 0, pp = Val 1, pt = Val 7\<rparr>,
       \<lparr>px = Val 0, py = Val 0, pp = Val 1, pt = Val 8\<rparr>]] (Val 800) (Val 320) (Val 4)))
   = [[\<lparr>px = Val 0, py = Val 0, pp = Val (1 / 2), pt = Val 0\<rparr>]]"
proof -
  let ?ss = "[[\<lparr>px = Val (10 ^ 21), py = Val 0, pp = Val 1, pt = Val 7\<rparr>,
               \<lparr>px = Val 0, py = Val 0, pp = Val 1, pt = Val 8\<rparr>]]"
  have t: "strokesToSvg ?ss (Val 800) (Val 320) (Val 4)
        = header_text ''800'' ''320''
          @ join newline (map (path_text ''4'') [''M1e+21 0.00 L0.00 0.00''])
          @ newline @ ''</svg>''"
    by (simp add: strokesToSvg_def pathElement_def huge_stroke sample_numbers Let_def
          header_text_def path_text_def del: strokeToPathD.simps numberToString.simps)
  have p: "parseFromString (strokesToSvg ?ss (Val 800) (Val 320) (Val 4))
        = svg_element ''800'' ''320'' # map (path_element ''4'') [''M1e+21 0.00 L0.00 0.00'']"
    unfolding t by (rule parse_document) simp_all
  have s: "strokes_of (svgToStrokes (strokesToSvg ?ss (Val 800) (Val 320) (Val 4)))
        = pathStrokes (map (path_element ''4'') [''M1e+21 0.00 L0.00 0.00''])"
    unfolding svgToStrokes_def p by (rule decode_document)
  have z: "to_double (of_int (10 ^ 23) / 100) = Val (10 ^ 21)" "to_double (of_int 0 / 100) = Val 0"
    by (simp_all add: double_1e21)
  have e: "pathStrokes [] = []" by (simp add: pathStrokes_def)
  show ?thesis
    unfolding s using z
    by (simp add: pathStrokes_path huge_path e)
qed

text \<open>
  A stroke of two points, with a negative coordinate and with the double nearest to 4.01,
  which is not 4.01, and with a pressure and a time of its own.
\<close>

theorem codec_round_trip_witness:
  "length (strokes_of (svgToStrokes (strokesToSvg
      [[\<lparr>px = Val 1, py = Val 2, pp = Val (1 / 4), pt = Val 17\<rparr>,
        \<lparr>px = Val (- 3 / 2), py = to_double (401 / 100), pp = Val 1, pt = Val 18\<rparr>]]
      (Val 800) (Val 320) (Val 4)))) = 1
   \<and> length (strokes_of (svgToStrokes (strokesToSvg
      [[\<lparr>px = Val 1, py = Val 2, pp = Val (1 / 4), pt = Val 17\<rparr>,
        \<lparr>px = Val (- 3 / 2), py = to_double (401 / 100), pp = Val 1, pt = Val 18\<rparr>]]
      (Val 800) (Val 320) (Val 4))) ! 0) = 2
   \<and> strokes_of (svgToStrokes (strokesToSvg
      [[\<lparr>px = Val 1, py = Val 2, pp = Val (1 / 4), pt = Val 17\<rparr>,
        \<lparr>px = Val (- 3 / 2), py = to_double (401 / 100), pp = Val 1, pt = Val 18\<rparr>]]
      (Val 800) (Val 320) (Val 4))) ! 0 ! 1
     = \<lparr>px = Val (- 3 / 2), py = to_double (401 / 100), pp = Val (1 / 2), pt = Val 0\<rparr>"
proof -
  let ?ss = "[[\<lparr>px = Val 1, py = Val 2, pp = Val (1 / 4), pt = Val 17\<rparr>,
               \<lparr>px = Val (- 3 / 2), py = to_double (401 / 100), pp = Val 1, pt = Val 18\<rparr>]]"
  let ?r = "strokes_of (svgToStrokes (strokesToSvg ?ss (Val 800) (Val 320) (Val 4)))"
  have "Val 1 = to_double (of_int 100 / 100)" "Val 2 = to_double (of_int 200 / 100)"
    by simp_all
  then have e1: "\<exists>k. Val 1 = to_double (of_int k / 100)"
    and e2: "\<exists>k. Val 2 = to_double (of_int k / 100)"
    by blast+
  have "Val (- 3 / 2) = to_double (of_int (- 150) / 100)"
    using to_double_minus[of "3 / 2"] three_halves by simp
  then have e3: "\<exists>k. Val (- 3 / 2) = to_double (of_int k / 100)" by blast
  have "to_double (401 / 100) = to_double (of_int 401 / 100)" by simp
  then have e4: "\<exists>k. to_double (401 / 100) = to_double (of_int k / 100)" by blast
  have b4: "below_1e21 (to_double (401 / 100))" using hundredths_small[of 401] by simp
  have h: "\<forall>stroke\<in>set ?ss. 2 \<le> length stroke \<and>
             (\<forall>q\<in>set stroke.
                (\<exists>k. px q = to_double (of_int k / 100)) \<and> below_1e21 (px q) \<and>
                (\<exists>k. py q = to_double (of_int k / 100)) \<and> below_1e21 (py q))"
    using e1 e2 e3 e4 b4 by simp
  from codec_round_trip[OF h, of "Val 800" "Val 320" "Val 4"]
  have a: "length ?r = 1" "length (?r ! 0) = 2"
    and b: "px (?r ! 0 ! 1) = Val (- 3 / 2)" "py (?r ! 0 ! 1) = to_double (401 / 100)"
      "pp (?r ! 0 ! 1) = Val (1 / 2)" "pt (?r ! 0 ! 1) = Val 0"
    by simp_all
  from b have "?r ! 0 ! 1
     = \<lparr>px = Val (- 3 / 2), py = to_double (401 / 100), pp = Val (1 / 2), pt = Val 0\<rparr>"
    by (simp add: Point.equality)
  with a show ?thesis by simp
qed

end
